theory Spec2Isabelle
  imports Main
begin

section \<open>Sugar-AI activity: the request lifecycle of \<open>activity.py\<close>\<close>

text \<open>
  The development follows \<open>SugarAIActivity\<close> in \<open>src/activity.py\<close>. Python names that
  start with an underscore lose it (\<open>_make_api_request\<close> is \<open>make_api_request\<close>).

  A Python \<open>str\<close> is a HOL \<open>string\<close>: a list of characters read as the code points
  U+0000 to U+00FF. Text outside that range is not covered by the model.
\<close>

subsection \<open>Python values and formatting\<close>

text \<open>
  What \<open>response.json()\<close> can return. The code observes such a value through
  \<open>.get\<close>, through its truth value in \<open>if quota:\<close> and through f-string formatting.
  For a float, a list and a dict the rendering that \<open>str()\<close> gives is carried with the
  value (first argument of \<open>PyList\<close> and \<open>PyDict\<close>, second of \<open>PyFloat\<close>); a float also
  carries its truth value.
\<close>

datatype pyval =
    PyNone
  | PyBool bool
  | PyInt int
  | PyFloat bool string
  | PyStr string
  | PyList string "pyval list"
  | PyDict string "(string \<times> pyval) list"

definition digit_char :: "nat \<Rightarrow> char" where
  "digit_char d = char_of (48 + d)"

function str_nat :: "nat \<Rightarrow> string" where
  "str_nat n = (if n < 10 then [digit_char n] else str_nat (n div 10) @ [digit_char (n mod 10)])"
  by pat_completeness auto
termination
  by (relation "measure (\<lambda>n. n)") auto

declare str_nat.simps [simp del]

definition str_int :: "int \<Rightarrow> string" where
  "str_int i = (if i < 0 then ''-'' @ str_nat (nat (- i)) else str_nat (nat i))"

fun py_str :: "pyval \<Rightarrow> string" where
  "py_str PyNone = ''None''"
| "py_str (PyBool b) = (if b then ''True'' else ''False'')"
| "py_str (PyInt i) = str_int i"
| "py_str (PyFloat t s) = s"
| "py_str (PyStr s) = s"
| "py_str (PyList s xs) = s"
| "py_str (PyDict s kvs) = s"

fun truthy :: "pyval \<Rightarrow> bool" where
  "truthy PyNone = False"
| "truthy (PyBool b) = b"
| "truthy (PyInt i) = (i \<noteq> 0)"
| "truthy (PyFloat t s) = t"
| "truthy (PyStr s) = (s \<noteq> [])"
| "truthy (PyList s xs) = (xs \<noteq> [])"
| "truthy (PyDict s kvs) = (kvs \<noteq> [])"

fun type_name :: "pyval \<Rightarrow> string" where
  "type_name PyNone = ''NoneType''"
| "type_name (PyBool b) = ''bool''"
| "type_name (PyInt i) = ''int''"
| "type_name (PyFloat t s) = ''float''"
| "type_name (PyStr s) = ''str''"
| "type_name (PyList s xs) = ''list''"
| "type_name (PyDict s kvs) = ''dict''"

text \<open>
  The exceptions the handlers of \<open>_make_api_request\<close> tell apart:
  \<open>requests.exceptions.Timeout\<close>, \<open>requests.exceptions.ConnectionError\<close>, and any other
  \<open>Exception\<close>, which carries what \<open>str(e)\<close> gives.
\<close>

datatype exn = Timeout | ConnectionError | OtherException string

text \<open>\<open>v.get(key, default)\<close>: only a dict has the method; elsewhere AttributeError.\<close>

fun py_get :: "pyval \<Rightarrow> string \<Rightarrow> pyval \<Rightarrow> exn + pyval" where
  "py_get (PyDict s kvs) key dflt =
     Inr (case map_of kvs key of Some v \<Rightarrow> v | None \<Rightarrow> dflt)"
| "py_get v key dflt =
     Inl (OtherException ([CHR 0x27] @ type_name v @ [CHR 0x27] @ '' object has no attribute ''
            @ [CHR 0x27] @ ''get'' @ [CHR 0x27]))"

subsection \<open>Effects of the background thread\<close>

text \<open>
  The callbacks that \<open>GLib.idle_add\<close> is given, with their arguments; the HTTP call
  \<open>requests.post(url, params=params, headers=headers, timeout=300)\<close>; \<open>time.sleep\<close>.
  \<open>_make_api_request\<close> returns the list of its effects in program order.
\<close>

datatype callback =
    AddSystemMessage string
  | AddAiMessage pyval
  | AddErrorMessage string
  | SetInputSensitive bool

record request =
  url :: string
  params :: "(string \<times> string) list"
  headers :: "(string \<times> string) list"
  timeout :: nat

datatype event = Post request | Sleep nat | IdleAdd callback

text \<open>
  What one call of \<open>requests.post\<close> does: it raises, or it returns a response with
  \<open>status_code\<close>, \<open>text\<close> and the result of \<open>json()\<close> (\<open>Inl detail\<close>: the body is not
  JSON and \<open>json()\<close> raises a decoding error whose \<open>str\<close> is \<open>detail\<close>).
\<close>

datatype reply =
    Response nat string "string + pyval"
  | Raises exn

text \<open>
  The world as attempt \<open>i\<close> finds it: the RAG toggle and the stored key, which the
  code reads from \<open>self\<close> inside the loop, and what the server does.
\<close>

record world =
  rag_active :: bool
  api_key :: string
  reply :: reply

subsection \<open>\<open>urllib.parse.quote\<close>\<close>

text \<open>
  \<open>quote(s)\<close> with the default \<open>safe='/'\<close>: the text is encoded as UTF-8, the bytes
  of letters, digits and \<open>_.-~/\<close> are kept, every other byte becomes \<open>%XX\<close> in
  upper-case hexadecimal.
\<close>

definition hex_digit :: "nat \<Rightarrow> char" where
  "hex_digit d = (if d < 10 then char_of (48 + d) else char_of (55 + d))"

definition utf8 :: "char \<Rightarrow> nat list" where
  "utf8 c = (let n = of_char c :: nat in
     if n < 128 then [n] else [192 + n div 64, 128 + n mod 64])"

definition always_safe :: "nat \<Rightarrow> bool" where
  "always_safe b = ((65 \<le> b \<and> b \<le> 90) \<or> (97 \<le> b \<and> b \<le> 122) \<or> (48 \<le> b \<and> b \<le> 57)
     \<or> b = 95 \<or> b = 46 \<or> b = 45 \<or> b = 126 \<or> b = 47)"

definition quote_byte :: "nat \<Rightarrow> string" where
  "quote_byte b = (if always_safe b then [char_of b]
     else [CHR ''%'', hex_digit (b div 16), hex_digit (b mod 16)])"

definition quote :: "string \<Rightarrow> string" where
  "quote s = concat (map quote_byte (concat (map utf8 s)))"

subsection \<open>What \<open>requests\<close> does with \<open>params\<close>\<close>

text \<open>
  This is the behaviour of the library, not code of the repository. \<open>requests.post\<close>
  builds the query string of the URL from \<open>params\<close> with \<open>urllib.parse.urlencode\<close>:
  every key and value goes through \<open>quote_plus\<close>, which keeps the bytes of letters,
  digits and \<open>_.-~\<close>, writes a space as \<open>+\<close> and every other byte, the percent sign
  included, as \<open>%XX\<close>; the pairs are joined by \<open>&\<close> and follow the URL after \<open>?\<close>.
\<close>

definition quote_plus_byte :: "nat \<Rightarrow> string" where
  "quote_plus_byte b =
     (if b = 32 then ''+''
      else if always_safe b \<and> b \<noteq> 47 then [char_of b]
      else [CHR ''%'', hex_digit (b div 16), hex_digit (b mod 16)])"

definition quote_plus :: "string \<Rightarrow> string" where
  "quote_plus s = concat (map quote_plus_byte (concat (map utf8 s)))"

fun urlencode :: "(string \<times> string) list \<Rightarrow> string" where
  "urlencode [] = []"
| "urlencode [(k, v)] = quote_plus k @ ''='' @ quote_plus v"
| "urlencode ((k, v) # ps) = quote_plus k @ ''='' @ quote_plus v @ ''&'' @ urlencode ps"

text \<open>The URL of the HTTP request that a call of \<open>requests.post\<close> sends.\<close>

definition prepared_url :: "request \<Rightarrow> string" where
  "prepared_url r = (if params r = [] then url r else url r @ ''?'' @ urlencode (params r))"

subsection \<open>\<open>_make_api_request\<close>\<close>

definition max_retries :: nat where
  "max_retries = 3"

definition retry_delays :: "nat list" where
  "retry_delays = [60, 120, 180]"

definition api_base_url :: string where
  "api_base_url = ''https://ai.sugarlabs.org''"

text \<open>How the body of the \<open>for\<close> loop ends: \<open>continue\<close> or \<open>return\<close>.\<close>

datatype flow = Continue | Return

text \<open>The three \<open>except\<close> clauses, in the order of the source.\<close>

fun on_exception :: "nat \<Rightarrow> exn \<Rightarrow> event list \<times> flow" where
  "on_exception attempt Timeout =
     (if attempt = max_retries - 1
      then [IdleAdd (AddErrorMessage (''Request timed out after 5 minutes on '' @ str_nat max_retries
              @ '' attempts. The Sugar-AI service may be experiencing high load. Please try again later.''))]
      else [IdleAdd (AddSystemMessage (''Request timed out on attempt '' @ str_nat (attempt + 1)
              @ ''. Will retry...''))],
      Continue)"
| "on_exception attempt ConnectionError =
     ([IdleAdd (AddErrorMessage ''Connection error. Please check your internet connection.'')],
      Return)"
| "on_exception attempt (OtherException detail) =
     ([IdleAdd (AddErrorMessage (''Unexpected error: '' @ detail))], Return)"

text \<open>
  The branch \<open>status_code == 200\<close>. Everything that can raise there (\<open>json()\<close>, the
  three \<open>.get\<close> on \<open>result\<close> and \<open>quota\<close>) comes before the first \<open>idle_add\<close>, so the
  branch either raises with no effect or returns its notifications.
\<close>

definition on_ok :: "string + pyval \<Rightarrow> exn + event list" where
  "on_ok js =
     (case js of
        Inl detail \<Rightarrow> Inl (OtherException detail)
      | Inr result \<Rightarrow>
         (case py_get result ''answer'' (PyStr ''No answer received.'') of
            Inl e \<Rightarrow> Inl e
          | Inr answer \<Rightarrow>
             (case py_get result ''quota'' (PyDict ''{}'' []) of
                Inl e \<Rightarrow> Inl e
              | Inr quota \<Rightarrow>
                 if truthy quota then
                   (case py_get quota ''remaining'' (PyStr ''Unknown'') of
                      Inl e \<Rightarrow> Inl e
                    | Inr remaining \<Rightarrow>
                       (case py_get quota ''total'' (PyStr ''Unknown'') of
                          Inl e \<Rightarrow> Inl e
                        | Inr total' \<Rightarrow>
                           Inr [IdleAdd (AddSystemMessage
                                  (''Quota: '' @ py_str remaining @ ''/'' @ py_str total')),
                                IdleAdd (AddAiMessage answer)]))
                 else Inr [IdleAdd (AddAiMessage answer)])))"

text \<open>The \<open>if\<close>/\<open>elif\<close> chain on \<open>response.status_code\<close>.\<close>

definition on_response :: "nat \<Rightarrow> nat \<Rightarrow> string \<Rightarrow> string + pyval \<Rightarrow> event list \<times> flow" where
  "on_response attempt status_code text js =
     (if status_code = 200 then
        (case on_ok js of
           Inl e \<Rightarrow> on_exception attempt e
         | Inr evs \<Rightarrow> (evs, Return))
      else if status_code = 401 then
        ([IdleAdd (AddErrorMessage ''Invalid API key. Please check your configuration.'')], Return)
      else if status_code = 429 then
        ([IdleAdd (AddErrorMessage ''Rate limit exceeded. Please try again later.'')], Return)
      else if status_code = 504 then
        (if attempt = max_retries - 1
         then [IdleAdd (AddErrorMessage (''Server timeout (504) after '' @ str_nat max_retries
                 @ '' attempts. The Sugar-AI service is experiencing high load. Please try again later.''))]
         else [IdleAdd (AddSystemMessage (''Server timeout (504) on attempt '' @ str_nat (attempt + 1)
                 @ ''. Will retry...''))],
         Continue)
      else if status_code = 503 then
        ([IdleAdd (AddErrorMessage ''Service unavailable (503). The Sugar-AI service may be down for maintenance. Please try again later.'')],
         Return)
      else
        ([IdleAdd (AddErrorMessage (''API error '' @ str_nat status_code @ '': '' @ text))], Return))"

text \<open>What precedes the request when \<open>attempt > 0\<close>.\<close>

definition before_request :: "nat \<Rightarrow> event list" where
  "before_request attempt =
     (if attempt > 0 then
        [IdleAdd (AddSystemMessage (''Attempt '' @ str_nat (attempt + 1) @ ''/'' @ str_nat max_retries
           @ '' - retrying in '' @ str_nat (retry_delays ! (attempt - 1)) @ '' seconds...'')),
         Sleep (retry_delays ! (attempt - 1)),
         IdleAdd (AddSystemMessage ''Retrying request to Sugar-AI...'')]
      else [])"

definition build_request :: "world \<Rightarrow> string \<Rightarrow> request" where
  "build_request w question =
     (let endpoint = (if rag_active w then ''/ask'' else ''/ask-llm'');
          url = api_base_url @ endpoint;
          params = [(''question'', quote question)];
          headers = [(''X-API-Key'', api_key w)]
      in \<lparr>url = url, params = params, headers = headers, timeout = 300\<rparr>)"

text \<open>
  What follows the call of \<open>requests.post\<close> in the body of the loop: the chain on the
  status code when it returns, the matching \<open>except\<close> clause when it raises.
\<close>

definition handle_reply :: "nat \<Rightarrow> reply \<Rightarrow> event list \<times> flow" where
  "handle_reply attempt r =
     (case r of
        Response status_code text js \<Rightarrow> on_response attempt status_code text js
      | Raises e \<Rightarrow> on_exception attempt e)"

text \<open>One pass through the body of the \<open>for\<close> loop.\<close>

definition attempt_body :: "nat \<Rightarrow> world \<Rightarrow> string \<Rightarrow> event list \<times> flow" where
  "attempt_body attempt w question =
     (let (evs, fl) = handle_reply attempt (reply w)
      in (before_request attempt @ [Post (build_request w question)] @ evs, fl))"

text \<open>\<open>for attempt in range(max_retries)\<close>, from index \<open>attempt\<close> on.\<close>

function attempt_loop :: "nat \<Rightarrow> (nat \<Rightarrow> world) \<Rightarrow> string \<Rightarrow> event list" where
  "attempt_loop attempt env question =
     (if attempt < max_retries then
        (case attempt_body attempt (env attempt) question of
           (evs, Return) \<Rightarrow> evs
         | (evs, Continue) \<Rightarrow> evs @ attempt_loop (Suc attempt) env question)
      else [])"
  by pat_completeness auto
termination
  by (relation "measure (\<lambda>(attempt, env, question). max_retries - attempt)") auto

declare attempt_loop.simps [simp del]

text \<open>The \<open>try\<close> ... \<open>finally\<close> around the loop.\<close>

definition make_api_request :: "(nat \<Rightarrow> world) \<Rightarrow> string \<Rightarrow> event list" where
  "make_api_request env question =
     attempt_loop 0 env question @ [IdleAdd (SetInputSensitive True)]"

subsection \<open>Reading a trace\<close>

fun posts :: "event list \<Rightarrow> request list" where
  "posts [] = []"
| "posts (Post r # es) = r # posts es"
| "posts (e # es) = posts es"

fun sleeps :: "event list \<Rightarrow> nat list" where
  "sleeps [] = []"
| "sleeps (Sleep d # es) = d # sleeps es"
| "sleeps (e # es) = sleeps es"

fun notifications :: "event list \<Rightarrow> callback list" where
  "notifications [] = []"
| "notifications (IdleAdd c # es) = c # notifications es"
| "notifications (e # es) = notifications es"

fun is_error :: "callback \<Rightarrow> bool" where
  "is_error (AddErrorMessage m) = True"
| "is_error c = False"

fun is_answer :: "callback \<Rightarrow> bool" where
  "is_answer (AddAiMessage a) = True"
| "is_answer c = False"

fun is_sensitive :: "callback \<Rightarrow> bool" where
  "is_sensitive (SetInputSensitive b) = True"
| "is_sensitive c = False"

text \<open>The events before the first request, and those after it.\<close>

fun until_post :: "event list \<Rightarrow> event list" where
  "until_post [] = []"
| "until_post (Post r # es) = []"
| "until_post (e # es) = e # until_post es"

fun after_post :: "event list \<Rightarrow> event list" where
  "after_post [] = []"
| "after_post (Post r # es) = es"
| "after_post (e # es) = after_post es"

text \<open>
  \<open>between k es\<close>: the events after the request of attempt \<open>k - 1\<close> (from the start
  when \<open>k = 0\<close>) and before the request of attempt \<open>k\<close>.
  \<open>after_attempt k es\<close>: the events after the request of attempt \<open>k\<close>.
\<close>

fun between :: "nat \<Rightarrow> event list \<Rightarrow> event list" where
  "between 0 es = until_post es"
| "between (Suc k) es = between k (after_post es)"

fun after_attempt :: "nat \<Rightarrow> event list \<Rightarrow> event list" where
  "after_attempt 0 es = after_post es"
| "after_attempt (Suc k) es = after_attempt k (after_post es)"

text \<open>
  The two classes of outcome of one attempt. Transient: HTTP 504 or a client-side
  timeout. Terminal: any status other than 200 and 504, a connection error, any other
  exception.
\<close>

fun transient :: "reply \<Rightarrow> bool" where
  "transient (Response status_code text js) = (status_code = 504)"
| "transient (Raises e) = (e = Timeout)"

fun terminal :: "reply \<Rightarrow> bool" where
  "terminal (Response status_code text js) = (status_code \<noteq> 200 \<and> status_code \<noteq> 504)"
| "terminal (Raises e) = (e \<noteq> Timeout)"

subsection \<open>The activity and its transcript\<close>

text \<open>
  The fields of \<open>SugarAIActivity\<close> that the request lifecycle and the persistence
  touch. \<open>chat_buffer\<close> is the text of the \<open>Gtk.TextBuffer\<close> behind the chat view (its
  tags do not show in \<open>get_text\<close>); \<open>alerts\<close> are the messages of the alerts shown.
\<close>

record entry =
  entry_type :: string
  message :: string

record activity =
  self_api_key :: string
  self_conversation_history :: "entry list"
  self_is_requesting :: bool
  chat_buffer :: string
  question_entry_text :: string
  question_entry_sensitive :: bool
  ask_button_sensitive :: bool
  ask_button_label :: string
  alerts :: "string list"

definition add_user_message :: "string \<Rightarrow> activity \<Rightarrow> activity" where
  "add_user_message m a = a\<lparr>chat_buffer := chat_buffer a @ ''You: '' @ m @ ''\<newline>\<newline>''\<rparr>"

definition add_ai_message :: "string \<Rightarrow> activity \<Rightarrow> activity" where
  "add_ai_message m a = a\<lparr>chat_buffer := chat_buffer a @ ''Sugar-AI: '' @ m @ ''\<newline>\<newline>''\<rparr>"

definition add_error_message :: "string \<Rightarrow> activity \<Rightarrow> activity" where
  "add_error_message m a = a\<lparr>chat_buffer := chat_buffer a @ ''Error: '' @ m @ ''\<newline>\<newline>''\<rparr>"

definition add_system_message :: "string \<Rightarrow> activity \<Rightarrow> activity" where
  "add_system_message m a = a\<lparr>chat_buffer := chat_buffer a @ ''['' @ m @ '']\<newline>\<newline>''\<rparr>"

definition set_input_sensitive :: "bool \<Rightarrow> activity \<Rightarrow> activity" where
  "set_input_sensitive sensitive a =
     a\<lparr>question_entry_sensitive := sensitive,
       ask_button_sensitive := sensitive,
       self_is_requesting := (\<not> sensitive),
       ask_button_label := (if sensitive then ''Ask'' else ''Thinking...'')\<rparr>"

subsection \<open>\<open>str.strip\<close>, \<open>str.split\<close>, \<open>str.startswith\<close>\<close>

text \<open>The characters below U+0100 for which \<open>str.isspace\<close> holds.\<close>

definition is_space :: "char \<Rightarrow> bool" where
  "is_space c = (let n = of_char c :: nat in
     (9 \<le> n \<and> n \<le> 13) \<or> (28 \<le> n \<and> n \<le> 32) \<or> n = 133 \<or> n = 160)"

definition py_strip :: "string \<Rightarrow> string" where
  "py_strip s = rev (dropWhile is_space (rev (dropWhile is_space s)))"

text \<open>\<open>s.split("\n")\<close>: never empty, \<open>"".split("\n")\<close> is \<open>[""]\<close>.\<close>

fun split_nl :: "string \<Rightarrow> string list" where
  "split_nl [] = [[]]"
| "split_nl (c # cs) =
     (if c = CHR ''\<newline>'' then [] # split_nl cs
      else (case split_nl cs of l # ls \<Rightarrow> (c # l) # ls | [] \<Rightarrow> [[c]]))"

definition startswith :: "string \<Rightarrow> string \<Rightarrow> bool" where
  "startswith s p = (take (length p) s = p)"

subsection \<open>\<open>write_file\<close> and \<open>read_file\<close>\<close>

text \<open>
  The JSON object of the session file. \<open>json.dump\<close> followed by \<open>json.load\<close> gives back
  an object of strings and of lists of such objects as it was, so the file is modelled
  by the object it holds.
\<close>

record session =
  api_key_json :: string
  conversation_history_json :: "entry list"

text \<open>
  \<open>if current_message and current_type: conversation.append(...)\<close>, with
  \<open>current_type\<close> being \<open>None\<close> or a string.
\<close>

definition append_current :: "entry list \<Rightarrow> string \<Rightarrow> string option \<Rightarrow> entry list" where
  "append_current conversation current_message current_type =
     (case current_type of
        None \<Rightarrow> conversation
      | Some t \<Rightarrow>
          if current_message \<noteq> [] \<and> t \<noteq> []
          then conversation @ [\<lparr>entry_type = t, message = py_strip current_message\<rparr>]
          else conversation)"

text \<open>The body of \<open>for line in lines\<close> on the three variables of the parser.\<close>

definition parse_line ::
  "string \<Rightarrow> entry list \<times> string \<times> string option \<Rightarrow> entry list \<times> string \<times> string option" where
  "parse_line line st =
     (case st of (conversation, current_message, current_type) \<Rightarrow>
        if startswith line ''You: '' then
          (append_current conversation current_message current_type, drop 5 line, Some ''user'')
        else if startswith line ''Sugar-AI: '' then
          (append_current conversation current_message current_type, drop 10 line, Some ''ai'')
        else if current_message \<noteq> [] then
          (conversation, current_message @ ''\<newline>'' @ line, current_type)
        else (conversation, current_message, current_type))"

fun parse_lines ::
  "string list \<Rightarrow> entry list \<times> string \<times> string option \<Rightarrow> entry list \<times> string \<times> string option" where
  "parse_lines [] st = st"
| "parse_lines (line # lines) st = parse_lines lines (parse_line line st)"

definition parse_conversation :: "string \<Rightarrow> entry list" where
  "parse_conversation text =
     (case parse_lines (split_nl text) ([], [], None) of
        (conversation, current_message, current_type) \<Rightarrow>
          append_current conversation current_message current_type)"

definition write_file :: "activity \<Rightarrow> session" where
  "write_file a =
     \<lparr>api_key_json = self_api_key a,
      conversation_history_json = parse_conversation (chat_buffer a)\<rparr>"

text \<open>The loop of \<open>read_file\<close> that restores the transcript.\<close>

fun restore :: "entry list \<Rightarrow> activity \<Rightarrow> activity" where
  "restore [] a = a"
| "restore (e # es) a =
     restore es
       (if entry_type e = ''user'' then add_user_message (message e) a
        else if entry_type e = ''ai'' then add_ai_message (message e) a
        else a)"

definition read_file :: "session \<Rightarrow> activity \<Rightarrow> activity" where
  "read_file data a =
     restore (conversation_history_json data)
       (a\<lparr>self_api_key := api_key_json data,
          self_conversation_history := conversation_history_json data,
          chat_buffer := []\<rparr>)"

text \<open>
  A message that the line parser of \<open>write_file\<close> gives back as it was: not empty, no
  white space at either end, and no line after the first that starts with one of the
  two speaker prefixes.
\<close>

definition plain_line :: "string \<Rightarrow> bool" where
  "plain_line l = (\<not> startswith l ''You: '' \<and> \<not> startswith l ''Sugar-AI: '')"

definition well_formed_message :: "string \<Rightarrow> bool" where
  "well_formed_message m =
     (m \<noteq> [] \<and> \<not> is_space (hd m) \<and> \<not> is_space (last m) \<and> list_all plain_line (tl (split_nl m)))"

definition well_formed_entry :: "entry \<Rightarrow> bool" where
  "well_formed_entry e =
     ((entry_type e = ''user'' \<or> entry_type e = ''ai'') \<and> well_formed_message (message e))"

text \<open>The activity after \<open>__init__\<close>, with the key that \<open>_load_api_key\<close> found.\<close>

definition init_activity :: "string \<Rightarrow> activity" where
  "init_activity key =
     \<lparr>self_api_key = key, self_conversation_history = [], self_is_requesting = False,
      chat_buffer = [], question_entry_text = [], question_entry_sensitive = True,
      ask_button_sensitive = True, ask_button_label = ''Ask'', alerts = []\<rparr>"

text \<open>
  The text that the restore loop appends for one entry, and the lines of that text
  (the second empty line begins the text of the next entry).
\<close>

definition block_lines :: "entry \<Rightarrow> string list" where
  "block_lines e =
     ((if entry_type e = ''user'' then ''You: '' else ''Sugar-AI: '') @ hd (split_nl (message e)))
       # tl (split_nl (message e)) @ [[]]"

definition block_text :: "entry \<Rightarrow> string" where
  "block_text e =
     (if entry_type e = ''user'' then ''You: '' else ''Sugar-AI: '') @ message e @ ''\<newline>\<newline>''"

subsection \<open>\<open>_on_ask_clicked\<close>\<close>

definition show_error_alert :: "string \<Rightarrow> activity \<Rightarrow> activity" where
  "show_error_alert m a = a\<lparr>alerts := alerts a @ [m]\<rparr>"

text \<open>
  The handler of the Ask button and of the activation of the entry. It returns the
  activity as the handler leaves it and, when it starts the background thread, the
  argument \<open>question\<close> handed to \<open>_make_api_request\<close>.
\<close>

definition on_ask_clicked :: "activity \<Rightarrow> activity \<times> string option" where
  "on_ask_clicked a =
     (let question = py_strip (question_entry_text a) in
      if question = [] then (a, None)
      else if self_api_key a = [] then
        (show_error_alert ''Please configure your API key first.'' a, None)
      else if self_is_requesting a then (a, None)
      else
        (set_input_sensitive False
           (add_system_message
              ''Sugar-AI is thinking... This may take 2-5 minutes, please be patient.''
              (add_user_message question (a\<lparr>question_entry_text := []\<rparr>))),
         Some question))"

definition on_clear_clicked :: "activity \<Rightarrow> activity" where
  "on_clear_clicked a =
     add_system_message ''Conversation cleared.''
       (a\<lparr>self_conversation_history := [], chat_buffer := []\<rparr>)"

text \<open>What the main loop does when it runs a callback queued by \<open>GLib.idle_add\<close>.\<close>

fun run_callback :: "callback \<Rightarrow> activity \<Rightarrow> activity" where
  "run_callback (AddSystemMessage m) a = add_system_message m a"
| "run_callback (AddAiMessage v) a = add_ai_message (py_str v) a"
| "run_callback (AddErrorMessage m) a = add_error_message m a"
| "run_callback (SetInputSensitive b) a = set_input_sensitive b a"

subsection \<open>The activity, its threads and the main loop\<close>

text \<open>
  The activity together with the background threads that are running
  \<open>_make_api_request\<close>, each given by the effects it has still to perform, and the queue
  of idle callbacks of the main loop. A thread is in the list from
  \<open>threading.Thread(...).start()\<close> until it has performed its last effect.
\<close>

record system =
  act :: activity
  threads :: "event list list"
  idle_queue :: "callback list"

text \<open>
  The steps of the system. On the UI thread: the user edits the entry or an example
  button calls \<open>_set_question\<close>; Ask is clicked (the environment that the new
  orchestration would meet comes with the step); Clear is clicked; a key is saved in
  the dialog; a session file is read; the main loop runs the oldest idle callback. On
  a background thread: thread \<open>i\<close> performs its next effect, and \<open>GLib.idle_add\<close> puts
  the callback at the end of the queue.
\<close>

datatype step =
    SetQuestion string
  | AskClicked "nat \<Rightarrow> world"
  | ClearClicked
  | SaveKey string
  | ReadFile session
  | RunIdle
  | ThreadStep nat

definition thread_step :: "nat \<Rightarrow> system \<Rightarrow> system" where
  "thread_step i s =
     (if i < length (threads s) then
        (case threads s ! i of
           [] \<Rightarrow> s\<lparr>threads := take i (threads s) @ drop (Suc i) (threads s)\<rparr>
         | e # rest \<Rightarrow>
             s\<lparr>threads := (if rest = [] then take i (threads s) @ drop (Suc i) (threads s)
                           else (threads s)[i := rest]),
               idle_queue := (case e of IdleAdd c \<Rightarrow> idle_queue s @ [c] | _ \<Rightarrow> idle_queue s)\<rparr>)
      else s)"

fun do_step :: "step \<Rightarrow> system \<Rightarrow> system" where
  "do_step (SetQuestion q) s = s\<lparr>act := (act s)\<lparr>question_entry_text := q\<rparr>\<rparr>"
| "do_step (AskClicked env) s =
     (case on_ask_clicked (act s) of
        (a, None) \<Rightarrow> s\<lparr>act := a\<rparr>
      | (a, Some question) \<Rightarrow>
          s\<lparr>act := a, threads := threads s @ [make_api_request env question]\<rparr>)"
| "do_step ClearClicked s = s\<lparr>act := on_clear_clicked (act s)\<rparr>"
| "do_step (SaveKey k) s = s\<lparr>act := (act s)\<lparr>self_api_key := py_strip k\<rparr>\<rparr>"
| "do_step (ReadFile data) s = s\<lparr>act := read_file data (act s)\<rparr>"
| "do_step RunIdle s =
     (case idle_queue s of
        [] \<Rightarrow> s
      | c # cs \<Rightarrow> s\<lparr>act := run_callback c (act s), idle_queue := cs\<rparr>)"
| "do_step (ThreadStep i) s = thread_step i s"

definition init_system :: "string \<Rightarrow> system" where
  "init_system key = \<lparr>act = init_activity key, threads = [], idle_queue = []\<rparr>"

definition run_steps :: "step list \<Rightarrow> system \<Rightarrow> system" where
  "run_steps steps s = foldl (\<lambda>s st. do_step st s) s steps"

text \<open>
  What holds of every reachable state: each running thread still has exactly one
  re-enabling of the input to queue, as its last effect; no queued callback disables
  the input; and the running threads and the queued re-enablings together are one
  while \<open>_is_requesting\<close> is set and none otherwise.
\<close>

definition thread_ok :: "event list \<Rightarrow> bool" where
  "thread_ok t = (t \<noteq> [] \<and> last t = IdleAdd (SetInputSensitive True)
     \<and> filter is_sensitive (notifications t) = [SetInputSensitive True])"

definition system_ok :: "system \<Rightarrow> bool" where
  "system_ok s =
     (list_all thread_ok (threads s)
      \<and> list_all (\<lambda>c. c = SetInputSensitive True) (filter is_sensitive (idle_queue s))
      \<and> length (threads s) + length (filter is_sensitive (idle_queue s)) =
          (if self_is_requesting (act s) then 1 else 0))"

subsection \<open>Concrete environments\<close>

text \<open>
  Scenario A: the first attempt returns HTTP 200 with
  \<open>{"answer": "A loop repeats code.", "quota": {"remaining": 9, "total": 10}}\<close>.
\<close>

definition scenario_A :: "nat \<Rightarrow> world" where
  "scenario_A i = \<lparr>rag_active = True, api_key = ''key'',
     reply = Response 200 []
       (Inr (PyDict [] [(''answer'', PyStr ''A loop repeats code.''),
          (''quota'', PyDict [] [(''remaining'', PyInt 9), (''total'', PyInt 10)])]))\<rparr>"

text \<open>Scenario B: HTTP 504 twice, then HTTP 200 with \<open>{"answer": "ok"}\<close>.\<close>

definition scenario_B :: "nat \<Rightarrow> world" where
  "scenario_B i = \<lparr>rag_active = True, api_key = ''key'',
     reply = (if i < 2 then Response 504 ''Gateway Time-out'' (Inl ''Expecting value'')
              else Response 200 [] (Inr (PyDict [] [(''answer'', PyStr ''ok'')])))\<rparr>"

text \<open>Scenario C: the first attempt returns HTTP 401.\<close>

definition scenario_C :: "nat \<Rightarrow> world" where
  "scenario_C i = \<lparr>rag_active = True, api_key = ''key'',
     reply = Response 401 ''Unauthorized'' (Inl ''Expecting value'')\<rparr>"

text \<open>Scenario D: every attempt raises a client-side timeout.\<close>

definition scenario_D :: "nat \<Rightarrow> world" where
  "scenario_D i = \<lparr>rag_active = True, api_key = ''key'', reply = Raises Timeout\<rparr>"

text \<open>HTTP 200 with \<open>{"answer": "A loop repeats code.", "quota": 5}\<close>.\<close>

definition quota_number_env :: "nat \<Rightarrow> world" where
  "quota_number_env i = \<lparr>rag_active = True, api_key = ''key'',
     reply = Response 200 []
       (Inr (PyDict [] [(''answer'', PyStr ''A loop repeats code.''), (''quota'', PyInt 5)]))\<rparr>"

text \<open>
  The RAG toggle is switched off and a new key is saved while the orchestration waits
  after a first HTTP 504.
\<close>

definition toggled_env :: "nat \<Rightarrow> world" where
  "toggled_env i =
     (if i = 0
      then \<lparr>rag_active = True, api_key = ''old-key'',
             reply = Response 504 ''Gateway Time-out'' (Inl ''Expecting value'')\<rparr>
      else \<lparr>rag_active = False, api_key = ''new-key'',
             reply = Response 200 [] (Inr (PyDict [] [(''answer'', PyStr ''ok'')]))\<rparr>)"

text \<open>HTTP 200 with a body that is not JSON.\<close>

definition invalid_json_env :: "nat \<Rightarrow> world" where
  "invalid_json_env i = \<lparr>rag_active = True, api_key = ''key'',
     reply = Response 200 ''<html>OK</html>'' (Inl ''Expecting value: line 1 column 1 (char 0)'')\<rparr>"

section \<open>Properties\<close>

lemma posts_append: "posts (xs @ ys) = posts xs @ posts ys"
  by (induction xs rule: posts.induct) simp_all

lemma sleeps_append: "sleeps (xs @ ys) = sleeps xs @ sleeps ys"
  by (induction xs rule: sleeps.induct) simp_all

lemma notifications_append: "notifications (xs @ ys) = notifications xs @ notifications ys"
  by (induction xs rule: notifications.induct) simp_all


subsection \<open>Evaluation and unfolding of the loop\<close>

lemma str_nat_1: "str_nat (Suc 0) = ''1''" by code_simp
lemma str_nat_2: "str_nat (Suc (Suc 0)) = ''2''" by code_simp
lemma str_nat_3: "str_nat 3 = ''3''" by code_simp
lemma str_nat_60: "str_nat 60 = ''60''" by code_simp
lemma str_nat_120: "str_nat 120 = ''120''" by code_simp

lemma on_ok_posts: "on_ok js = Inr evs \<Longrightarrow> posts evs = [] \<and> sleeps evs = []"
  by (auto simp: on_ok_def split: sum.splits if_splits)

lemma on_exception_posts [simp]: "posts (fst (on_exception a e)) = []" "sleeps (fst (on_exception a e)) = []"
  by (cases e; simp)+

lemma posts_handle [simp]: "posts (fst (handle_reply a r)) = []"
  by (auto simp: handle_reply_def on_response_def on_ok_posts split: reply.splits sum.splits)

lemma sleeps_handle [simp]: "sleeps (fst (handle_reply a r)) = []"
  by (auto simp: handle_reply_def on_response_def on_ok_posts split: reply.splits sum.splits)

lemma on_ok_exn: "on_ok js = Inl e \<Longrightarrow> \<exists>d. e = OtherException d"
  apply (auto simp: on_ok_def split: sum.splits if_splits)
  subgoal for r by (cases r) auto
  subgoal for r by (cases r) auto
  subgoal for r a q by (cases q) auto
  subgoal for r a q x by (cases q) auto
  done

lemma flow_handle: "snd (handle_reply a r) = (if transient r then Continue else Return)"
  apply (cases r)
  subgoal for sc text js
    by (auto simp: handle_reply_def on_response_def split: sum.splits dest!: on_ok_exn)
  subgoal for e by (cases e) (auto simp: handle_reply_def)
  done

lemma attempt_body_fst: "fst (attempt_body a w q) =
    before_request a @ Post (build_request w q) # fst (handle_reply a (reply w))"
  by (simp add: attempt_body_def split: prod.splits)

lemma attempt_body_snd: "snd (attempt_body a w q) = (if transient (reply w) then Continue else Return)"
  using flow_handle [of a "reply w"] by (auto simp: attempt_body_def split: prod.splits)

lemma attempt_loop_unfold:
  "attempt_loop a env q =
     (if a < 3 then
        fst (attempt_body a (env a) q) @ (if transient (reply (env a)) then attempt_loop (Suc a) env q else [])
      else [])"
proof (cases "attempt_body a (env a) q")
  case (Pair evs fl)
  have "fl = (if transient (reply (env a)) then Continue else Return)"
    using attempt_body_snd [of a "env a" q] Pair by simp
  with Pair show ?thesis
    by (subst attempt_loop.simps) (simp add: max_retries_def)
qed

lemma trace_unfold:
  "make_api_request env q =
     fst (attempt_body 0 (env 0) q) @
     (if transient (reply (env 0)) then
        fst (attempt_body 1 (env 1) q) @
        (if transient (reply (env 1)) then fst (attempt_body 2 (env 2) q) else [])
      else []) @ [IdleAdd (SetInputSensitive True)]"
proof -
  have l3: "attempt_loop 3 env q = []"
    by (subst attempt_loop_unfold) simp
  have l2: "attempt_loop 2 env q = fst (attempt_body 2 (env 2) q)"
    apply (subst attempt_loop_unfold) using l3 by (simp add: eval_nat_numeral)
  have l1: "attempt_loop 1 env q = fst (attempt_body 1 (env 1) q) @
        (if transient (reply (env 1)) then fst (attempt_body 2 (env 2) q) else [])"
    apply (subst attempt_loop_unfold) using l2 by (simp add: eval_nat_numeral)
  show ?thesis unfolding make_api_request_def
    apply (subst attempt_loop_unfold) using l1 by simp
qed

lemma before_request_0: "before_request 0 = []" by (simp add: before_request_def)
lemma before_request_1: "before_request (Suc 0) = 
   [IdleAdd (AddSystemMessage ''Attempt 2/3 - retrying in 60 seconds...''), Sleep 60,
    IdleAdd (AddSystemMessage ''Retrying request to Sugar-AI...'')]"
  by (simp add: before_request_def retry_delays_def max_retries_def str_nat_2 str_nat_3 str_nat_60)
lemma before_request_2: "before_request 2 = 
   [IdleAdd (AddSystemMessage ''Attempt 3/3 - retrying in 120 seconds...''), Sleep 120,
    IdleAdd (AddSystemMessage ''Retrying request to Sugar-AI...'')]"
  by (simp add: before_request_def retry_delays_def max_retries_def str_nat_3 str_nat_120)


lemma on_ok_sensitive: "on_ok js = Inr evs \<Longrightarrow> filter is_sensitive (notifications evs) = []"
  by (auto simp: on_ok_def split: sum.splits if_splits)

lemma on_exception_sensitive: "filter is_sensitive (notifications (fst (on_exception a e))) = []"
  by (cases e) simp_all

lemma handle_reply_sensitive: "filter is_sensitive (notifications (fst (handle_reply a r))) = []"
  by (auto simp: handle_reply_def on_response_def on_ok_sensitive on_exception_sensitive
        split: reply.splits sum.splits)

lemma before_request_sensitive: "filter is_sensitive (notifications (before_request a)) = []"
  by (simp add: before_request_def)

lemma attempt_body_sensitive: "filter is_sensitive (notifications (fst (attempt_body a w q))) = []"
  by (simp add: attempt_body_fst notifications_append handle_reply_sensitive before_request_sensitive)

text \<open>
  Claim C3. Whatever the replies of the server are (success, terminal error, exhausted
  retries, an exception caught by the last handler), the orchestration emits the
  notification that re-enables the input, \<open>_set_input_sensitive(True)\<close>, exactly once,
  and it is the last effect of the orchestration. Run by the main loop, it makes the
  entry and the button sensitive again and clears \<open>_is_requesting\<close>.
\<close>

theorem reenable_exactly_once_and_last:
  "filter is_sensitive (notifications (make_api_request env q)) = [SetInputSensitive True]
   \<and> last (make_api_request env q) = IdleAdd (SetInputSensitive True)
   \<and> \<not> self_is_requesting (run_callback (SetInputSensitive True) a)
   \<and> question_entry_sensitive (run_callback (SetInputSensitive True) a)
   \<and> ask_button_sensitive (run_callback (SetInputSensitive True) a)"
  by (simp add: trace_unfold notifications_append attempt_body_sensitive set_input_sensitive_def)

subsection \<open>The retry schedule\<close>

lemma until_post_append: "posts evs = [] \<Longrightarrow> until_post (evs @ rest) = evs @ until_post rest"
  by (induction evs rule: posts.induct) simp_all

lemma after_post_append: "posts evs = [] \<Longrightarrow> after_post (evs @ rest) = after_post rest"
  by (induction evs rule: posts.induct) simp_all

lemma posts_before_request [simp]: "posts (before_request a) = []"
  by (simp add: before_request_def)

lemma sleeps_before_request:
  "sleeps (before_request a) = (if a > 0 then [retry_delays ! (a - 1)] else [])"
  by (simp add: before_request_def)

lemma posts_attempt_body: "posts (fst (attempt_body a w q)) = [build_request w q]"
  by (simp add: attempt_body_fst posts_append)

lemma sleeps_attempt_body:
  "sleeps (fst (attempt_body a w q)) = (if a > 0 then [retry_delays ! (a - 1)] else [])"
  by (simp add: attempt_body_fst sleeps_append sleeps_before_request)

lemma until_post_body: "until_post (fst (attempt_body a w q) @ rest) = before_request a"
  by (simp add: attempt_body_fst until_post_append)

lemma after_post_body:
  "after_post (fst (attempt_body a w q) @ rest) = fst (handle_reply a (reply w)) @ rest"
  by (simp add: attempt_body_fst after_post_append)

lemma until_post_handle: "until_post (fst (handle_reply a r) @ rest) = fst (handle_reply a r) @ until_post rest"
  by (simp add: until_post_append)

lemma after_post_handle: "after_post (fst (handle_reply a r) @ rest) = after_post rest"
  by (simp add: after_post_append)

lemma transient_cases:
  "transient r \<Longrightarrow> (\<exists>text js. r = Response 504 text js) \<or> r = Raises Timeout"
  by (cases r) auto

lemma handle_transient_last:
  "transient r \<Longrightarrow> fst (handle_reply 2 r) =
     [IdleAdd (AddErrorMessage
        (if r = Raises Timeout
         then ''Request timed out after 5 minutes on 3 attempts. The Sugar-AI service may be experiencing high load. Please try again later.''
         else ''Server timeout (504) after 3 attempts. The Sugar-AI service is experiencing high load. Please try again later.''))]"
  by (auto dest!: transient_cases simp: handle_reply_def on_response_def max_retries_def str_nat_3)

lemma handle_transient_error:
  "transient r \<Longrightarrow> a < 2 \<Longrightarrow> filter is_error (notifications (fst (handle_reply a r))) = []"
  by (auto dest!: transient_cases simp: handle_reply_def on_response_def max_retries_def)

lemma before_request_error: "filter is_error (notifications (before_request a)) = []"
  by (simp add: before_request_def)

lemma between_1: "between 1 es = until_post (after_post es)"
  by simp

lemma between_2: "between 2 es = until_post (after_post (after_post es))"
  by (simp add: eval_nat_numeral)

lemma after_attempt_1: "after_attempt 1 es = after_post (after_post es)"
  by simp

lemma after_attempt_2: "after_attempt 2 es = after_post (after_post (after_post es))"
  by (simp add: eval_nat_numeral)

text \<open>
  Claim C1. An orchestration makes at most 3 attempts and does not sleep before the
  first one; as many delays are slept as attempts were repeated, taken from 60, 120 in
  this order. When attempt 0 ends in a transient outcome (HTTP 504 or a client-side
  timeout) a second attempt is made and exactly 60 seconds are slept between the two
  requests; when attempt 1 is transient as well, a third attempt is made after exactly
  120 seconds; when all three are transient, the last attempt is followed by one error
  notification that names the 3 attempts, the only error notification of the
  orchestration, and then by the re-enabling of the input.
\<close>

theorem transient_retry_schedule:
  "length (posts (make_api_request env q)) \<le> 3
   \<and> sleeps (between 0 (make_api_request env q)) = []
   \<and> sleeps (make_api_request env q) = take (length (posts (make_api_request env q)) - 1) [60, 120]
   \<and> (transient (reply (env 0)) \<longrightarrow>
        2 \<le> length (posts (make_api_request env q))
        \<and> sleeps (between 1 (make_api_request env q)) = [60])
   \<and> (transient (reply (env 0)) \<and> transient (reply (env 1)) \<longrightarrow>
        length (posts (make_api_request env q)) = 3
        \<and> sleeps (between 2 (make_api_request env q)) = [120])
   \<and> (transient (reply (env 0)) \<and> transient (reply (env 1)) \<and> transient (reply (env 2)) \<longrightarrow>
        after_attempt 2 (make_api_request env q) =
          [IdleAdd (AddErrorMessage
             (if reply (env 2) = Raises Timeout
              then ''Request timed out after 5 minutes on 3 attempts. The Sugar-AI service may be experiencing high load. Please try again later.''
              else ''Server timeout (504) after 3 attempts. The Sugar-AI service is experiencing high load. Please try again later.'')),
           IdleAdd (SetInputSensitive True)]
        \<and> length (filter is_error (notifications (make_api_request env q))) = 1)"
proof (intro conjI impI)
  show "length (posts (make_api_request env q)) \<le> 3"
    by (simp add: trace_unfold posts_append posts_attempt_body)
  show "sleeps (between 0 (make_api_request env q)) = []"
    by (simp add: trace_unfold until_post_body before_request_0)
  show "sleeps (make_api_request env q) = take (length (posts (make_api_request env q)) - 1) [60, 120]"
    by (simp add: trace_unfold posts_append sleeps_append posts_attempt_body sleeps_attempt_body
          retry_delays_def)
next
  assume t: "transient (reply (env 0))"
  show "2 \<le> length (posts (make_api_request env q))"
    using t by (simp add: trace_unfold posts_append posts_attempt_body)
  show "sleeps (between 1 (make_api_request env q)) = [60]"
    using t by (simp add: between_1 trace_unfold after_post_body until_post_handle until_post_body
         sleeps_append before_request_1 [folded One_nat_def] del: between.simps One_nat_def)
next
  assume t: "transient (reply (env 0)) \<and> transient (reply (env 1))"
  show "length (posts (make_api_request env q)) = 3"
    using t by (simp add: trace_unfold posts_append posts_attempt_body)
  show "sleeps (between 2 (make_api_request env q)) = [120]"
    using t by (simp add: between_2 trace_unfold after_post_body after_post_handle
         until_post_handle until_post_body sleeps_append before_request_2)
next
  assume t: "transient (reply (env 0)) \<and> transient (reply (env 1)) \<and> transient (reply (env 2))"
  show "after_attempt 2 (make_api_request env q) =
          [IdleAdd (AddErrorMessage
             (if reply (env 2) = Raises Timeout
              then ''Request timed out after 5 minutes on 3 attempts. The Sugar-AI service may be experiencing high load. Please try again later.''
              else ''Server timeout (504) after 3 attempts. The Sugar-AI service is experiencing high load. Please try again later.'')),
           IdleAdd (SetInputSensitive True)]"
    using t handle_transient_last [of "reply (env 2)"]
    by (simp add: after_attempt_2 trace_unfold after_post_body after_post_handle)
  show "length (filter is_error (notifications (make_api_request env q))) = 1"
    using t handle_transient_last [of "reply (env 2)"]
       handle_transient_error [of "reply (env 0)" 0] handle_transient_error [of "reply (env 1)" 1]
    by (simp add: trace_unfold attempt_body_fst notifications_append before_request_error)
qed

theorem transient_retry_schedule_witness:
  "transient (reply (scenario_D 0)) \<and> transient (reply (scenario_D 1)) \<and> transient (reply (scenario_D 2))
   \<and> length (posts (make_api_request scenario_D ''What is a loop?'')) = 3
   \<and> sleeps (between 0 (make_api_request scenario_D ''What is a loop?'')) = []
   \<and> sleeps (between 1 (make_api_request scenario_D ''What is a loop?'')) = [60]
   \<and> sleeps (between 2 (make_api_request scenario_D ''What is a loop?'')) = [120]
   \<and> sleeps (make_api_request scenario_D ''What is a loop?'') = [60, 120]
   \<and> after_attempt 2 (make_api_request scenario_D ''What is a loop?'') =
        [IdleAdd (AddErrorMessage ''Request timed out after 5 minutes on 3 attempts. The Sugar-AI service may be experiencing high load. Please try again later.''),
         IdleAdd (SetInputSensitive True)]"
  using transient_retry_schedule [of scenario_D "''What is a loop?''"]
  by (simp add: scenario_D_def)


subsection \<open>Outcomes that end the orchestration\<close>

lemma terminal_not_transient: "terminal r \<Longrightarrow> \<not> transient r"
  by (cases r) auto

lemma handle_transient_answer:
  "transient r \<Longrightarrow> filter is_answer (notifications (fst (handle_reply a r))) = []"
  by (auto dest!: transient_cases simp: handle_reply_def on_response_def)

lemma before_request_answer: "filter is_answer (notifications (before_request a)) = []"
  by (simp add: before_request_def)

lemma handle_transient_error_1:
  "transient r \<Longrightarrow> filter is_error (notifications (fst (handle_reply 1 r))) = []"
  using handle_transient_error [of r 1] by simp

text \<open>The trace of an orchestration whose attempt \<open>k\<close> is the first that is not transient.\<close>

lemma trace_at_stop:
  assumes k: "k < 3"
    and tr: "\<forall>j<k. transient (reply (env j))"
    and stop: "\<not> transient (reply (env k))"
  shows "length (posts (make_api_request env q)) = Suc k"
    and "after_attempt k (make_api_request env q) =
           fst (handle_reply k (reply (env k))) @ [IdleAdd (SetInputSensitive True)]"
    and "filter is_error (notifications (make_api_request env q)) =
           filter is_error (notifications (fst (handle_reply k (reply (env k)))))"
    and "filter is_answer (notifications (make_api_request env q)) =
           filter is_answer (notifications (fst (handle_reply k (reply (env k)))))"
proof -
  consider (0) "k = 0" | (1) "k = 1" "transient (reply (env 0))"
    | (2) "k = 2" "transient (reply (env 0))" "transient (reply (env 1))"
  proof -
    have "k = 0 \<or> k = 1 \<or> k = 2" using k by arith
    moreover have "0 < k \<Longrightarrow> transient (reply (env 0))" using tr by simp
    moreover have "1 < k \<Longrightarrow> transient (reply (env 1))" using tr by simp
    ultimately show ?thesis using that by auto
  qed
  note facts = this
  show "length (posts (make_api_request env q)) = Suc k"
    using facts stop by cases (simp_all add: trace_unfold posts_append posts_attempt_body)
  show "after_attempt k (make_api_request env q) =
           fst (handle_reply k (reply (env k))) @ [IdleAdd (SetInputSensitive True)]"
    using facts stop
    by cases (simp_all add: after_attempt_1 after_attempt_2 trace_unfold after_post_body after_post_handle
         del: One_nat_def after_attempt.simps, simp add: trace_unfold after_post_body)
  show "filter is_error (notifications (make_api_request env q)) =
           filter is_error (notifications (fst (handle_reply k (reply (env k)))))"
    using facts stop
    by cases (simp_all add: trace_unfold attempt_body_fst notifications_append before_request_error
         handle_transient_error handle_transient_error_1 del: One_nat_def)
  show "filter is_answer (notifications (make_api_request env q)) =
           filter is_answer (notifications (fst (handle_reply k (reply (env k)))))"
    using facts stop
    by cases (simp_all add: trace_unfold attempt_body_fst notifications_append before_request_answer
         handle_transient_answer del: One_nat_def)
qed

lemma handle_invalid_json:
  "handle_reply a (Response 200 text (Inl detail)) =
     ([IdleAdd (AddErrorMessage (''Unexpected error: '' @ detail))], Return)"
  by (simp add: handle_reply_def on_response_def on_ok_def)

text \<open>
  Claim C9. When the attempts before attempt \<open>k\<close> were transient and attempt \<open>k\<close>
  returns HTTP 200 with a body that is not JSON, the request of attempt \<open>k\<close> is
  followed by the notification of the unexpected error with the detail of the
  exception and then by the re-enabling of the input, and by nothing else: no further
  attempt is made, this is the only error notification and no answer is posted.
\<close>

theorem invalid_json_is_terminal:
  assumes "k < 3"
    and "\<forall>j<k. transient (reply (env j))"
    and "reply (env k) = Response 200 body (Inl detail)"
  shows "after_attempt k (make_api_request env q) =
           [IdleAdd (AddErrorMessage (''Unexpected error: '' @ detail)),
            IdleAdd (SetInputSensitive True)]
         \<and> length (posts (make_api_request env q)) = Suc k
         \<and> filter is_error (notifications (make_api_request env q)) =
             [AddErrorMessage (''Unexpected error: '' @ detail)]
         \<and> filter is_answer (notifications (make_api_request env q)) = []"
proof -
  have stop: "\<not> transient (reply (env k))" using assms(3) by simp
  show ?thesis
    using trace_at_stop [of k env q, OF assms(1) assms(2) stop] assms(3)
    by (simp add: handle_invalid_json)
qed

theorem invalid_json_is_terminal_witness:
  "(0::nat) < 3 \<and> reply (invalid_json_env 0) =
       Response 200 ''<html>OK</html>'' (Inl ''Expecting value: line 1 column 1 (char 0)'')
   \<and> after_attempt 0 (make_api_request invalid_json_env ''What is a loop?'') =
        [IdleAdd (AddErrorMessage ''Unexpected error: Expecting value: line 1 column 1 (char 0)''),
         IdleAdd (SetInputSensitive True)]
   \<and> length (posts (make_api_request invalid_json_env ''What is a loop?'')) = 1"
  using invalid_json_is_terminal [where k = 0 and env = invalid_json_env and body = "''<html>OK</html>''"
      and detail = "''Expecting value: line 1 column 1 (char 0)''" and q = "''What is a loop?''"]
  by (simp add: invalid_json_env_def)

lemma handle_401: "handle_reply a (Response 401 body js) =
    ([IdleAdd (AddErrorMessage ''Invalid API key. Please check your configuration.'')], Return)"
  by (simp add: handle_reply_def on_response_def)

lemma handle_429: "handle_reply a (Response 429 body js) =
    ([IdleAdd (AddErrorMessage ''Rate limit exceeded. Please try again later.'')], Return)"
  by (simp add: handle_reply_def on_response_def)

lemma handle_503: "handle_reply a (Response 503 body js) =
    ([IdleAdd (AddErrorMessage ''Service unavailable (503). The Sugar-AI service may be down for maintenance. Please try again later.'')], Return)"
  by (simp add: handle_reply_def on_response_def)

lemma handle_other_status:
  "sc \<notin> {200, 401, 429, 504, 503} \<Longrightarrow> handle_reply a (Response sc body js) =
    ([IdleAdd (AddErrorMessage (''API error '' @ str_nat sc @ '': '' @ body))], Return)"
  by (simp add: handle_reply_def on_response_def)

lemma handle_connection_error: "handle_reply a (Raises ConnectionError) =
    ([IdleAdd (AddErrorMessage ''Connection error. Please check your internet connection.'')], Return)"
  by (simp add: handle_reply_def)

lemma handle_other_exception: "handle_reply a (Raises (OtherException detail)) =
    ([IdleAdd (AddErrorMessage (''Unexpected error: '' @ detail))], Return)"
  by (simp add: handle_reply_def)

lemma handle_terminal:
  "terminal r \<Longrightarrow> \<exists>m. fst (handle_reply a r) = [IdleAdd (AddErrorMessage m)]"
proof (cases r)
  case (Response sc body js)
  assume "terminal r"
  with Response show ?thesis
    by (simp add: handle_reply_def on_response_def)
next
  case (Raises e)
  assume "terminal r"
  with Raises show ?thesis
    by (cases e) (simp_all add: handle_reply_def)
qed

lemma trace_first_stop:
  "\<not> transient (reply (env 0)) \<Longrightarrow>
     make_api_request env q =
       Post (build_request (env 0) q) # fst (handle_reply 0 (reply (env 0))) @ [IdleAdd (SetInputSensitive True)]"
  by (simp add: trace_unfold attempt_body_fst before_request_0)

text \<open>
  Claim C2. When the first attempt ends in a terminal outcome (a status other than 200
  and 504, a connection error, any other exception), the orchestration makes exactly
  one request, never sleeps, and emits exactly one error notification, followed by the
  re-enabling of the input; the message is the one of the specific cause.
\<close>

theorem terminal_first_attempt:
  assumes "terminal (reply (env 0))"
  shows "posts (make_api_request env q) = [build_request (env 0) q]
    \<and> sleeps (make_api_request env q) = []
    \<and> length (filter is_error (notifications (make_api_request env q))) = 1
    \<and> length (notifications (make_api_request env q)) = 2
    \<and> (\<forall>body js. reply (env 0) = Response 401 body js \<longrightarrow>
          notifications (make_api_request env q) =
            [AddErrorMessage ''Invalid API key. Please check your configuration.'',
             SetInputSensitive True])
    \<and> (\<forall>body js. reply (env 0) = Response 429 body js \<longrightarrow>
          notifications (make_api_request env q) =
            [AddErrorMessage ''Rate limit exceeded. Please try again later.'',
             SetInputSensitive True])
    \<and> (\<forall>body js. reply (env 0) = Response 503 body js \<longrightarrow>
          notifications (make_api_request env q) =
            [AddErrorMessage ''Service unavailable (503). The Sugar-AI service may be down for maintenance. Please try again later.'',
             SetInputSensitive True])
    \<and> (\<forall>sc body js. reply (env 0) = Response sc body js \<and> sc \<notin> {200, 401, 429, 504, 503} \<longrightarrow>
          notifications (make_api_request env q) =
            [AddErrorMessage (''API error '' @ str_nat sc @ '': '' @ body),
             SetInputSensitive True])
    \<and> (reply (env 0) = Raises ConnectionError \<longrightarrow>
          notifications (make_api_request env q) =
            [AddErrorMessage ''Connection error. Please check your internet connection.'',
             SetInputSensitive True])
    \<and> (\<forall>detail. reply (env 0) = Raises (OtherException detail) \<longrightarrow>
          notifications (make_api_request env q) =
            [AddErrorMessage (''Unexpected error: '' @ detail), SetInputSensitive True])"
proof -
  have stop: "\<not> transient (reply (env 0))"
    using assms by (rule terminal_not_transient)
  note tr = trace_first_stop [of env q, OF stop]
  obtain m where m: "fst (handle_reply 0 (reply (env 0))) = [IdleAdd (AddErrorMessage m)]"
    using handle_terminal [of "reply (env 0)" 0] assms by blast
  have general: "posts (make_api_request env q) = [build_request (env 0) q]
    \<and> sleeps (make_api_request env q) = []
    \<and> length (filter is_error (notifications (make_api_request env q))) = 1
    \<and> length (notifications (make_api_request env q)) = 2"
    by (simp add: tr m)
  have table: "\<And>evs. handle_reply 0 (reply (env 0)) = (evs, Return) \<Longrightarrow>
      notifications (make_api_request env q) = notifications evs @ [SetInputSensitive True]"
    by (simp add: tr notifications_append)
  show ?thesis
    using general
    by (auto simp: table handle_401 handle_429 handle_503 handle_other_status
          handle_connection_error handle_other_exception simp del: insert_iff)
qed

theorem terminal_first_attempt_witness:
  "terminal (reply (scenario_C 0))
   \<and> posts (make_api_request scenario_C ''What is a loop?'') =
        [\<lparr>url = ''https://ai.sugarlabs.org/ask'',
          params = [(''question'', ''What%20is%20a%20loop%3F'')],
          headers = [(''X-API-Key'', ''key'')], timeout = 300\<rparr>]
   \<and> sleeps (make_api_request scenario_C ''What is a loop?'') = []
   \<and> notifications (make_api_request scenario_C ''What is a loop?'') =
        [AddErrorMessage ''Invalid API key. Please check your configuration.'',
         SetInputSensitive True]"
proof -
  have q: "quote ''What is a loop?'' = ''What%20is%20a%20loop%3F''"
    by code_simp
  have t: "terminal (reply (scenario_C 0))"
    by (simp add: scenario_C_def)
  show ?thesis
    using t terminal_first_attempt [of scenario_C "''What is a loop?''"]
    by (simp add: scenario_C_def build_request_def api_base_url_def q)
qed

lemma on_ok_quota:
  "map_of kvs ''quota'' = Some (PyDict qs qkvs) \<Longrightarrow> qkvs \<noteq> [] \<Longrightarrow>
   on_ok (Inr (PyDict s kvs)) =
     Inr [IdleAdd (AddSystemMessage
            (''Quota: '' @ py_str (case map_of qkvs ''remaining'' of Some v \<Rightarrow> v | None \<Rightarrow> PyStr ''Unknown'')
               @ ''/'' @ py_str (case map_of qkvs ''total'' of Some v \<Rightarrow> v | None \<Rightarrow> PyStr ''Unknown''))),
          IdleAdd (AddAiMessage (case map_of kvs ''answer'' of Some v \<Rightarrow> v
                                 | None \<Rightarrow> PyStr ''No answer received.''))]"
  by (simp add: on_ok_def)

lemma on_ok_no_quota:
  "map_of kvs ''quota'' = None \<or> (\<exists>qv. map_of kvs ''quota'' = Some qv \<and> \<not> truthy qv) \<Longrightarrow>
   on_ok (Inr (PyDict s kvs)) =
     Inr [IdleAdd (AddAiMessage (case map_of kvs ''answer'' of Some v \<Rightarrow> v
                                 | None \<Rightarrow> PyStr ''No answer received.''))]"
  by (auto simp: on_ok_def)

lemma handle_ok:
  "on_ok js = Inr evs \<Longrightarrow> handle_reply a (Response 200 body js) = (evs, Return)"
  by (simp add: handle_reply_def on_response_def)

text \<open>
  Claim C4, as amended. When the attempts before attempt \<open>k\<close> were transient and
  attempt \<open>k\<close> returns HTTP 200 with a JSON object whose \<open>quota\<close> is a non-empty
  object, is absent or is falsy, no further attempt is made and no error is reported;
  the answer (or the default message when the object has no \<open>answer\<close>) is posted exactly
  once, preceded by the quota notification exactly when \<open>quota\<close> is a non-empty object,
  and followed by the re-enabling of the input.
\<close>

theorem ok_response_notifications:
  assumes "k < 3"
    and "\<forall>j<k. transient (reply (env j))"
    and "reply (env k) = Response 200 body (Inr (PyDict s kvs))"
  shows
   "(map_of kvs ''quota'' = Some (PyDict qs qkvs) \<and> qkvs \<noteq> [] \<longrightarrow>
       after_attempt k (make_api_request env q) =
         [IdleAdd (AddSystemMessage
            (''Quota: '' @ py_str (case map_of qkvs ''remaining'' of Some v \<Rightarrow> v | None \<Rightarrow> PyStr ''Unknown'')
               @ ''/'' @ py_str (case map_of qkvs ''total'' of Some v \<Rightarrow> v | None \<Rightarrow> PyStr ''Unknown''))),
          IdleAdd (AddAiMessage (case map_of kvs ''answer'' of Some v \<Rightarrow> v
                                 | None \<Rightarrow> PyStr ''No answer received.'')),
          IdleAdd (SetInputSensitive True)])
    \<and> (map_of kvs ''quota'' = None \<or> (\<exists>qv. map_of kvs ''quota'' = Some qv \<and> \<not> truthy qv) \<longrightarrow>
       after_attempt k (make_api_request env q) =
         [IdleAdd (AddAiMessage (case map_of kvs ''answer'' of Some v \<Rightarrow> v
                                 | None \<Rightarrow> PyStr ''No answer received.'')),
          IdleAdd (SetInputSensitive True)])
    \<and> ((map_of kvs ''quota'' = Some (PyDict qs qkvs) \<and> qkvs \<noteq> [])
        \<or> map_of kvs ''quota'' = None \<or> (\<exists>qv. map_of kvs ''quota'' = Some qv \<and> \<not> truthy qv) \<longrightarrow>
       length (posts (make_api_request env q)) = Suc k
       \<and> filter is_answer (notifications (make_api_request env q)) =
           [AddAiMessage (case map_of kvs ''answer'' of Some v \<Rightarrow> v
                          | None \<Rightarrow> PyStr ''No answer received.'')]
       \<and> filter is_error (notifications (make_api_request env q)) = [])"
proof -
  have stop: "\<not> transient (reply (env k))" using assms(3) by simp
  note at = trace_at_stop [of k env q, OF assms(1) assms(2) stop]
  have A: "map_of kvs ''quota'' = Some (PyDict qs qkvs) \<and> qkvs \<noteq> [] \<Longrightarrow>
      fst (handle_reply k (reply (env k))) =
         [IdleAdd (AddSystemMessage
            (''Quota: '' @ py_str (case map_of qkvs ''remaining'' of Some v \<Rightarrow> v | None \<Rightarrow> PyStr ''Unknown'')
               @ ''/'' @ py_str (case map_of qkvs ''total'' of Some v \<Rightarrow> v | None \<Rightarrow> PyStr ''Unknown''))),
          IdleAdd (AddAiMessage (case map_of kvs ''answer'' of Some v \<Rightarrow> v
                                 | None \<Rightarrow> PyStr ''No answer received.''))]"
    using on_ok_quota [of kvs qs qkvs s] handle_ok [of "Inr (PyDict s kvs)" _ k body] assms(3) by simp
  have B: "map_of kvs ''quota'' = None \<or> (\<exists>qv. map_of kvs ''quota'' = Some qv \<and> \<not> truthy qv) \<Longrightarrow>
      fst (handle_reply k (reply (env k))) =
         [IdleAdd (AddAiMessage (case map_of kvs ''answer'' of Some v \<Rightarrow> v
                                 | None \<Rightarrow> PyStr ''No answer received.''))]"
    using on_ok_no_quota [of kvs s] handle_ok [of "Inr (PyDict s kvs)" _ k body] assms(3) by simp
  show ?thesis
  proof (intro conjI impI)
    assume "map_of kvs ''quota'' = Some (PyDict qs qkvs) \<and> qkvs \<noteq> []"
    from A [OF this] show "after_attempt k (make_api_request env q) =
         [IdleAdd (AddSystemMessage
            (''Quota: '' @ py_str (case map_of qkvs ''remaining'' of Some v \<Rightarrow> v | None \<Rightarrow> PyStr ''Unknown'')
               @ ''/'' @ py_str (case map_of qkvs ''total'' of Some v \<Rightarrow> v | None \<Rightarrow> PyStr ''Unknown''))),
          IdleAdd (AddAiMessage (case map_of kvs ''answer'' of Some v \<Rightarrow> v
                                 | None \<Rightarrow> PyStr ''No answer received.'')),
          IdleAdd (SetInputSensitive True)]"
      by (simp add: at(2))
  next
    assume "map_of kvs ''quota'' = None \<or> (\<exists>qv. map_of kvs ''quota'' = Some qv \<and> \<not> truthy qv)"
    from B [OF this] show "after_attempt k (make_api_request env q) =
         [IdleAdd (AddAiMessage (case map_of kvs ''answer'' of Some v \<Rightarrow> v
                                 | None \<Rightarrow> PyStr ''No answer received.'')),
          IdleAdd (SetInputSensitive True)]"
      by (simp add: at(2))
  next
    assume h: "(map_of kvs ''quota'' = Some (PyDict qs qkvs) \<and> qkvs \<noteq> [])
        \<or> map_of kvs ''quota'' = None \<or> (\<exists>qv. map_of kvs ''quota'' = Some qv \<and> \<not> truthy qv)"
    show "length (posts (make_api_request env q)) = Suc k" by (rule at(1))
    show "filter is_answer (notifications (make_api_request env q)) =
           [AddAiMessage (case map_of kvs ''answer'' of Some v \<Rightarrow> v
                          | None \<Rightarrow> PyStr ''No answer received.'')]"
      using h A B by (auto simp: at(4))
    show "filter is_error (notifications (make_api_request env q)) = []"
      using h A B by (auto simp: at(3))
  qed
qed

text \<open>
  Claim C4 as stated fails: HTTP 200 with \<open>{"answer": "A loop repeats code.", "quota": 5}\<close>
  posts no answer; \<open>quota.get\<close> raises and the last handler reports an error.
\<close>

theorem ok_response_without_answer:
  "reply (quota_number_env 0) =
     Response 200 [] (Inr (PyDict [] [(''answer'', PyStr ''A loop repeats code.''), (''quota'', PyInt 5)]))
   \<and> filter is_answer (notifications (make_api_request quota_number_env ''What is a loop?'')) = []
   \<and> notifications (make_api_request quota_number_env ''What is a loop?'') =
       [AddErrorMessage (''Unexpected error: '' @ [CHR 0x27] @ ''int'' @ [CHR 0x27]
          @ '' object has no attribute '' @ [CHR 0x27] @ ''get'' @ [CHR 0x27]),
        SetInputSensitive True]"
proof -
  have r: "reply (quota_number_env 0) =
     Response 200 [] (Inr (PyDict [] [(''answer'', PyStr ''A loop repeats code.''), (''quota'', PyInt 5)]))"
    by (simp add: quota_number_env_def)
  have stop: "\<not> transient (reply (quota_number_env 0))"
    by (simp add: r)
  show ?thesis
    using r trace_first_stop [of quota_number_env "''What is a loop?''", OF stop]
    by (simp add: handle_reply_def on_response_def on_ok_def)
qed

lemma py_str_9: "py_str (PyInt 9) = ''9''" by code_simp
lemma py_str_10: "py_str (PyInt 10) = ''10''" by code_simp

theorem ok_response_notifications_witness:
  "reply (scenario_A 0) = Response 200 []
       (Inr (PyDict [] [(''answer'', PyStr ''A loop repeats code.''),
          (''quota'', PyDict [] [(''remaining'', PyInt 9), (''total'', PyInt 10)])]))
   \<and> after_attempt 0 (make_api_request scenario_A ''What is a loop?'') =
        [IdleAdd (AddSystemMessage ''Quota: 9/10''),
         IdleAdd (AddAiMessage (PyStr ''A loop repeats code.'')),
         IdleAdd (SetInputSensitive True)]
   \<and> length (posts (make_api_request scenario_A ''What is a loop?'')) = 1
   \<and> transient (reply (scenario_B 0)) \<and> transient (reply (scenario_B 1))
   \<and> reply (scenario_B 2) = Response 200 [] (Inr (PyDict [] [(''answer'', PyStr ''ok'')]))
   \<and> after_attempt 2 (make_api_request scenario_B ''What is a loop?'') =
        [IdleAdd (AddAiMessage (PyStr ''ok'')), IdleAdd (SetInputSensitive True)]
   \<and> length (posts (make_api_request scenario_B ''What is a loop?'')) = 3"
proof -
  have b: "\<forall>j<2. transient (reply (scenario_B j))"
    by (simp add: scenario_B_def)
  show ?thesis
    using ok_response_notifications [where k = 0 and env = scenario_A and body = "[]" and s = "[]"
        and kvs = "[(''answer'', PyStr ''A loop repeats code.''),
          (''quota'', PyDict [] [(''remaining'', PyInt 9), (''total'', PyInt 10)])]"
        and qs = "[]" and qkvs = "[(''remaining'', PyInt 9), (''total'', PyInt 10)]"
        and q = "''What is a loop?''"]
      ok_response_notifications [where k = 2 and env = scenario_B and body = "[]" and s = "[]"
        and kvs = "[(''answer'', PyStr ''ok'')]" and qs = "[]" and qkvs = "[]"
        and q = "''What is a loop?''", OF _ b]
    by (simp add: scenario_A_def scenario_B_def py_str_9 py_str_10 del: py_str.simps)
qed


subsection \<open>The requests\<close>

lemma posts_trace:
  "posts (make_api_request env q) =
     map (\<lambda>k. build_request (env k) q) [0..<length (posts (make_api_request env q))]"
  by (simp add: trace_unfold posts_append posts_attempt_body numeral_2_eq_2)

lemma length_posts_trace:
  "0 < length (posts (make_api_request env q)) \<and> length (posts (make_api_request env q)) \<le> 3"
  by (simp add: trace_unfold posts_append posts_attempt_body)

lemma build_request_eq:
  "build_request w q =
     \<lparr>url = ''https://ai.sugarlabs.org'' @ (if rag_active w then ''/ask'' else ''/ask-llm''),
      params = [(''question'', quote q)],
      headers = [(''X-API-Key'', api_key w)],
      timeout = 300\<rparr>"
  by (simp add: build_request_def api_base_url_def)

text \<open>
  The arguments of every call of \<open>requests.post\<close> (there is at least one): the URL is
  the base URL followed by \<open>/ask\<close> when the RAG toggle is active and by \<open>/ask-llm\<close>
  otherwise, the only entry of \<open>params\<close> is \<open>question\<close> with the value
  \<open>quote(question)\<close>, the only header is \<open>X-API-Key\<close> with the stored key, and the
  timeout is 300 seconds.
\<close>

lemma request_arguments:
  "posts (make_api_request env q) \<noteq> []
   \<and> posts (make_api_request env q) =
       map (\<lambda>k. \<lparr>url = ''https://ai.sugarlabs.org'' @ (if rag_active (env k) then ''/ask'' else ''/ask-llm''),
                  params = [(''question'', quote q)],
                  headers = [(''X-API-Key'', api_key (env k))],
                  timeout = 300\<rparr>)
         [0..<length (posts (make_api_request env q))]"
proof (rule conjI)
  show "posts (make_api_request env q) \<noteq> []"
    using length_posts_trace [of env q] by auto
  show "posts (make_api_request env q) =
       map (\<lambda>k. \<lparr>url = ''https://ai.sugarlabs.org'' @ (if rag_active (env k) then ''/ask'' else ''/ask-llm''),
                  params = [(''question'', quote q)],
                  headers = [(''X-API-Key'', api_key (env k))],
                  timeout = 300\<rparr>)
         [0..<length (posts (make_api_request env q))]"
    by (rule posts_trace [of env q, unfolded build_request_eq])
qed

lemma scenario_A_request:
  "posts (make_api_request scenario_A ''What is a loop?'') =
     [\<lparr>url = ''https://ai.sugarlabs.org/ask'',
       params = [(''question'', ''What%20is%20a%20loop%3F'')],
       headers = [(''X-API-Key'', ''key'')], timeout = 300\<rparr>]"
proof -
  have q: "quote ''What is a loop?'' = ''What%20is%20a%20loop%3F''"
    by code_simp
  have n: "length (posts (make_api_request scenario_A ''What is a loop?'')) = Suc 0"
    by (simp add: trace_unfold posts_append posts_attempt_body scenario_A_def)
  show ?thesis
    using request_arguments [of scenario_A "''What is a loop?''"]
    by (simp only: n q) (simp add: scenario_A_def)
qed

lemma quote_plus_quoted:
  "quote_plus ''What%20is%20a%20loop%3F'' = ''What%2520is%2520a%2520loop%253F''"
  by code_simp

lemma quote_plus_question: "quote_plus ''question'' = ''question''"
  by code_simp

text \<open>
  Claim C7. The request is a POST to the endpoint of the mode with the key in the
  header \<open>X-API-Key\<close>, but the question is not carried percent-encoded exactly once.
  The code applies \<open>quote\<close> to the question and hands the result to \<open>requests.post\<close> as
  \<open>params\<close>, which the library encodes again. For the question \<open>What is a loop?\<close> in
  RAG mode the value handed over is \<open>What%20is%20a%20loop%3F\<close> and the query string of
  the request is \<open>question=What%2520is%2520a%2520loop%253F\<close>: the percent signs of
  the first encoding are themselves encoded, so the server decodes the parameter to
  the encoded text and not to the question.
\<close>

theorem question_encoded_twice:
  "map params (posts (make_api_request scenario_A ''What is a loop?'')) =
     [[(''question'', ''What%20is%20a%20loop%3F'')]]
   \<and> map headers (posts (make_api_request scenario_A ''What is a loop?'')) =
     [[(''X-API-Key'', ''key'')]]
   \<and> map prepared_url (posts (make_api_request scenario_A ''What is a loop?'')) =
     [''https://ai.sugarlabs.org/ask?question=What%2520is%2520a%2520loop%253F'']
   \<and> map prepared_url (posts (make_api_request scenario_A ''What is a loop?'')) \<noteq>
     [''https://ai.sugarlabs.org/ask?question=What%20is%20a%20loop%3F'']"
  by (simp add: scenario_A_request prepared_url_def quote_plus_quoted quote_plus_question)

text \<open>
  Claim C5 as stated fails: the toggle and the key are read inside the loop, so a
  change made while the orchestration waits after an HTTP 504 reaches the next attempt.
\<close>

theorem endpoint_and_key_reread:
  "map url (posts (make_api_request toggled_env ''What is a loop?'')) =
     [''https://ai.sugarlabs.org/ask'', ''https://ai.sugarlabs.org/ask-llm'']
   \<and> map headers (posts (make_api_request toggled_env ''What is a loop?'')) =
     [[(''X-API-Key'', ''old-key'')], [(''X-API-Key'', ''new-key'')]]"
proof -
  have "posts (make_api_request toggled_env ''What is a loop?'') =
     [build_request (toggled_env 0) ''What is a loop?'', build_request (toggled_env 1) ''What is a loop?'']"
    by (simp add: trace_unfold posts_append posts_attempt_body toggled_env_def)
  then show ?thesis
    by (simp add: build_request_eq toggled_env_def)
qed

text \<open>
  Claim C5, as amended. Attempt \<open>k\<close> uses the endpoint that the RAG toggle selects and
  the key that is stored when attempt \<open>k\<close> builds its request; only the question is
  fixed for the whole orchestration. When neither the toggle nor the key changes during
  the orchestration, every attempt sends the same request.
\<close>

theorem requests_follow_current_state:
  "map url (posts (make_api_request env q)) =
     map (\<lambda>k. ''https://ai.sugarlabs.org'' @ (if rag_active (env k) then ''/ask'' else ''/ask-llm''))
       [0..<length (posts (make_api_request env q))]
   \<and> map headers (posts (make_api_request env q)) =
     map (\<lambda>k. [(''X-API-Key'', api_key (env k))]) [0..<length (posts (make_api_request env q))]
   \<and> map params (posts (make_api_request env q)) =
     map (\<lambda>k. [(''question'', quote q)]) [0..<length (posts (make_api_request env q))]
   \<and> ((\<forall>k<3. rag_active (env k) = rag_active (env 0) \<and> api_key (env k) = api_key (env 0)) \<longrightarrow>
        set (posts (make_api_request env q)) = {build_request (env 0) q})"
proof -
  define n where "n = length (posts (make_api_request env q))"
  define f where "f = (\<lambda>k. build_request (env k) q)"
  have p: "posts (make_api_request env q) = map f [0..<n]"
    unfolding n_def f_def by (rule posts_trace)
  have n: "0 < n \<and> n \<le> 3"
    unfolding n_def by (rule length_posts_trace)
  have u: "map url (posts (make_api_request env q)) =
     map (\<lambda>k. ''https://ai.sugarlabs.org'' @ (if rag_active (env k) then ''/ask'' else ''/ask-llm'')) [0..<n]"
    unfolding p by (simp add: f_def build_request_eq)
  have h: "map headers (posts (make_api_request env q)) =
     map (\<lambda>k. [(''X-API-Key'', api_key (env k))]) [0..<n]"
    unfolding p by (simp add: f_def build_request_eq)
  have pa: "map params (posts (make_api_request env q)) =
     map (\<lambda>k. [(''question'', quote q)]) [0..<n]"
    unfolding p by (simp add: f_def build_request_eq)
  have same: "(\<forall>k<3. rag_active (env k) = rag_active (env 0) \<and> api_key (env k) = api_key (env 0)) \<longrightarrow>
        set (posts (make_api_request env q)) = {build_request (env 0) q}"
  proof
    assume a: "\<forall>k<3. rag_active (env k) = rag_active (env 0) \<and> api_key (env k) = api_key (env 0)"
    have eq: "f k = f 0" if "k < n" for k
    proof -
      have "k < 3" using n that by arith
      with a have "rag_active (env k) = rag_active (env 0) \<and> api_key (env k) = api_key (env 0)"
        by blast
      then show ?thesis by (simp add: f_def build_request_def)
    qed
    have "f ` {0..<n} \<subseteq> {f 0}"
    proof (rule subsetI)
      fix y assume "y \<in> f ` {0..<n}"
      then obtain k where k: "k < n" "y = f k" by auto
      from eq [OF k(1)] k(2) show "y \<in> {f 0}" by simp
    qed
    moreover have "f 0 \<in> f ` {0..<n}" using n by auto
    ultimately have "f ` {0..<n} = {f 0}" by blast
    then show "set (posts (make_api_request env q)) = {build_request (env 0) q}"
      unfolding p by (simp add: f_def)
  qed
  show ?thesis
    using u h pa same unfolding n_def by (intro conjI) assumption+
qed

theorem requests_follow_current_state_witness:
  "rag_active (scenario_D 1) = rag_active (scenario_D 0)
   \<and> rag_active (scenario_D 2) = rag_active (scenario_D 0)
   \<and> api_key (scenario_D 1) = api_key (scenario_D 0)
   \<and> api_key (scenario_D 2) = api_key (scenario_D 0)
   \<and> set (posts (make_api_request scenario_D ''What is a loop?'')) =
       {\<lparr>url = ''https://ai.sugarlabs.org/ask'',
         params = [(''question'', quote ''What is a loop?'')],
         headers = [(''X-API-Key'', ''key'')], timeout = 300\<rparr>}
   \<and> map url (posts (make_api_request toggled_env ''What is a loop?'')) =
       [''https://ai.sugarlabs.org/ask'', ''https://ai.sugarlabs.org/ask-llm'']"
proof -
  have a: "\<forall>k<3. rag_active (scenario_D k) = rag_active (scenario_D 0)
        \<and> api_key (scenario_D k) = api_key (scenario_D 0)"
    by (simp add: scenario_D_def)
  have n: "length (posts (make_api_request toggled_env ''What is a loop?'')) = 2"
    by (simp add: trace_unfold posts_append posts_attempt_body toggled_env_def)
  have u2: "[0..<2] = [0, Suc 0]"
    by (simp add: numeral_2_eq_2)
  have d: "set (posts (make_api_request scenario_D ''What is a loop?'')) =
       {build_request (scenario_D 0) ''What is a loop?''}"
    using requests_follow_current_state [of scenario_D "''What is a loop?''"] a by blast
  have t: "map url (posts (make_api_request toggled_env ''What is a loop?'')) =
     map (\<lambda>k. ''https://ai.sugarlabs.org'' @ (if rag_active (toggled_env k) then ''/ask'' else ''/ask-llm''))
       [0..<2]"
    using requests_follow_current_state [of toggled_env "''What is a loop?''"] unfolding n by (rule conjunct1)
  show ?thesis
    using d t by (simp add: u2 build_request_eq scenario_D_def toggled_env_def)
qed


subsection \<open>Persisting the conversation\<close>

lemma split_nl_not_Nil [simp]: "split_nl s \<noteq> []"
  by (induction s) (auto split: list.splits)

lemma split_nl_append_nl: "split_nl (a @ CHR ''\<newline>'' # b) = split_nl a @ split_nl b"
  by (induction a) (auto split: list.splits)

lemma split_nl_prefix:
  "CHR ''\<newline>'' \<notin> set h \<Longrightarrow> split_nl (h @ m) = (h @ hd (split_nl m)) # tl (split_nl m)"
  by (induction h) (auto split: list.splits)

lemma is_space_newline: "is_space CHR ''\<newline>''"
  by (simp add: is_space_def)

lemma hd_split_nl_not_Nil: "m \<noteq> [] \<Longrightarrow> \<not> is_space (hd m) \<Longrightarrow> hd (split_nl m) \<noteq> []"
  by (cases m) (auto simp: is_space_newline split: list.splits)

text \<open>Joining the lines of a text with newlines gives the text back.\<close>

lemma join_split_nl:
  "foldl (\<lambda>cur l. cur @ CHR ''\<newline>'' # l) (p @ hd (split_nl m)) (tl (split_nl m)) = p @ m"
proof (induction m arbitrary: p)
  case Nil
  show ?case by simp
next
  case (Cons c cs)
  obtain l ls where s: "split_nl cs = l # ls"
    by (cases "split_nl cs") auto
  show ?case
  proof (cases "c = CHR ''\<newline>''")
    case True
    with s Cons.IH [of "p @ ''\<newline>''"] show ?thesis by simp
  next
    case False
    with s Cons.IH [of "p @ [c]"] show ?thesis by simp
  qed
qed

lemma py_strip_trailing:
  assumes "m \<noteq> []" "\<not> is_space (hd m)" "\<not> is_space (last m)" "\<forall>c \<in> set ws. is_space c"
  shows "py_strip (m @ ws) = m"
proof -
  obtain c cs where m: "m = c # cs" using assms(1) by (cases m) auto
  have 1: "dropWhile is_space (m @ ws) = m @ ws"
    using assms(2) m by simp
  have 2: "dropWhile is_space (rev ws @ rev m) = dropWhile is_space (rev m)"
    using assms(4) by (intro dropWhile_append2) auto
  have 3: "dropWhile is_space (rev m) = rev m"
    using assms(1,3) by (cases m rule: rev_cases) auto
  show ?thesis
    by (simp add: py_strip_def 1 2 3)
qed

lemma parse_lines_append:
  "parse_lines (xs @ ys) st = parse_lines ys (parse_lines xs st)"
  by (induction xs arbitrary: st) simp_all

text \<open>Lines that continue the current message.\<close>

lemma parse_lines_plain:
  "list_all plain_line ls \<Longrightarrow> cur \<noteq> [] \<Longrightarrow>
   parse_lines ls (conv, cur, ty) = (conv, foldl (\<lambda>cur l. cur @ CHR ''\<newline>'' # l) cur ls, ty)"
  by (induction ls arbitrary: cur) (simp_all add: parse_line_def plain_line_def)

lemma plain_line_Nil: "plain_line []"
  by (simp add: plain_line_def startswith_def)

text \<open>What the parser makes of the lines of one rendered entry, from any state.\<close>

lemma parse_block:
  assumes "well_formed_entry e"
  shows "parse_lines (block_lines e) (conv, cur, ty) =
           (append_current conv cur ty, message e @ ''\<newline>'', Some (entry_type e))"
proof -
  let ?m = "message e"
  from assms have wf: "?m \<noteq> []" "\<not> is_space (hd ?m)" "list_all plain_line (tl (split_nl ?m))"
    and ty: "entry_type e = ''user'' \<or> entry_type e = ''ai''"
    by (simp_all add: well_formed_entry_def well_formed_message_def)
  have l0: "hd (split_nl ?m) \<noteq> []"
    using wf(1,2) by (rule hd_split_nl_not_Nil)
  have first: "parse_line ((if entry_type e = ''user'' then ''You: '' else ''Sugar-AI: '') @ hd (split_nl ?m))
       (conv, cur, ty) = (append_current conv cur ty, hd (split_nl ?m), Some (entry_type e))"
    using ty by (auto simp: parse_line_def startswith_def)
  have rest: "list_all plain_line (tl (split_nl ?m) @ [[]])"
    using wf(3) by (simp add: plain_line_Nil)
  have j: "foldl (\<lambda>cur l. cur @ CHR ''\<newline>'' # l) (hd (split_nl ?m)) (tl (split_nl ?m)) = ?m"
    using join_split_nl [of "[]" ?m] by simp
  show ?thesis
    unfolding block_lines_def
    by (simp only: parse_lines.simps first parse_lines_plain [OF rest l0]) (simp add: j)
qed

lemma split_nl_blocks:
  "\<forall>e \<in> set es. well_formed_entry e \<Longrightarrow>
   split_nl (concat (map block_text es)) = concat (map block_lines es) @ [[]]"
proof (induction es)
  case Nil
  show ?case by simp
next
  case (Cons e es)
  have h: "CHR ''\<newline>'' \<notin> set (if entry_type e = ''user'' then ''You: '' else ''Sugar-AI: '')"
    by simp
  have "split_nl (block_text e @ concat (map block_text es)) =
      split_nl ((if entry_type e = ''user'' then ''You: '' else ''Sugar-AI: '') @ message e)
        @ split_nl (''\<newline>'' @ concat (map block_text es))"
    using split_nl_append_nl [of "(if entry_type e = ''user'' then ''You: '' else ''Sugar-AI: '') @ message e"
        "''\<newline>'' @ concat (map block_text es)"]
    by (simp add: block_text_def)
  also have "\<dots> = block_lines e @ split_nl (concat (map block_text es))"
    by (simp only: split_nl_prefix [OF h]) (simp add: block_lines_def)
  finally show ?case using Cons by simp
qed

text \<open>After the blocks of well-formed entries, appending the current message gives the entries.\<close>

lemma parse_blocks:
  "\<forall>e \<in> set es. well_formed_entry e \<Longrightarrow>
   (case parse_lines (concat (map block_lines es)) ([], [], None) of
      (conv, cur, ty) \<Rightarrow>
        append_current conv cur ty = es
        \<and> (es = [] \<and> cur = [] \<or> (\<exists>m. cur = m @ ''\<newline>'' \<and> m \<noteq> [] \<and> \<not> is_space (hd m) \<and> \<not> is_space (last m))))"
proof (induction es rule: rev_induct)
  case Nil
  show ?case by (simp add: append_current_def)
next
  case (snoc e es)
  obtain conv cur ty where st: "parse_lines (concat (map block_lines es)) ([], [], None) = (conv, cur, ty)"
    by (cases "parse_lines (concat (map block_lines es)) ([], [], None)") auto
  from snoc have ih: "append_current conv cur ty = es" and wf: "well_formed_entry e"
    using st by auto
  let ?m = "message e"
  from wf have m: "?m \<noteq> []" "\<not> is_space (hd ?m)" "\<not> is_space (last ?m)"
    and ty: "entry_type e \<noteq> []"
    by (auto simp: well_formed_entry_def well_formed_message_def)
  have s: "py_strip (?m @ ''\<newline>'') = ?m"
    using m by (intro py_strip_trailing) (simp_all add: is_space_newline)
  have "parse_lines (concat (map block_lines (es @ [e]))) ([], [], None) =
      (es, ?m @ ''\<newline>'', Some (entry_type e))"
    by (simp add: parse_lines_append st parse_block [OF wf] ih)
  moreover have "append_current es (?m @ ''\<newline>'') (Some (entry_type e)) = es @ [e]"
    using ty by (simp add: append_current_def s)
  ultimately show ?case using m by auto
qed

lemma parse_conversation_blocks:
  assumes "\<forall>e \<in> set es. well_formed_entry e"
  shows "parse_conversation (concat (map block_text es)) = es"
proof -
  obtain conv cur ty where st: "parse_lines (concat (map block_lines es)) ([], [], None) = (conv, cur, ty)"
    by (cases "parse_lines (concat (map block_lines es)) ([], [], None)") auto
  from parse_blocks [OF assms] st
  have a: "append_current conv cur ty = es"
    and c: "es = [] \<and> cur = [] \<or> (\<exists>m. cur = m @ ''\<newline>'' \<and> m \<noteq> [] \<and> \<not> is_space (hd m) \<and> \<not> is_space (last m))"
    by auto
  have last_line: "parse_line [] (conv, cur, ty) =
      (conv, if cur = [] then [] else cur @ ''\<newline>'', ty)"
    by (simp add: parse_line_def startswith_def)
  have same: "append_current conv (if cur = [] then [] else cur @ ''\<newline>'') ty = append_current conv cur ty"
  proof (cases "cur = []")
    case True
    then show ?thesis by simp
  next
    case False
    with c obtain m where m: "cur = m @ ''\<newline>''" "m \<noteq> []" "\<not> is_space (hd m)" "\<not> is_space (last m)"
      by auto
    have "py_strip (m @ ''\<newline>\<newline>'') = m" "py_strip (m @ ''\<newline>'') = m"
      using m(2-4) by (intro py_strip_trailing; simp add: is_space_newline)+
    then show ?thesis using m(1) by (simp add: append_current_def split: option.splits)
  qed
  show ?thesis
    by (simp add: parse_conversation_def split_nl_blocks [OF assms] parse_lines_append st last_line same a)
qed

lemma restore_buffer:
  "\<forall>e \<in> set es. entry_type e = ''user'' \<or> entry_type e = ''ai'' \<Longrightarrow>
   restore es a = a\<lparr>chat_buffer := chat_buffer a @ concat (map block_text es)\<rparr>"
  by (induction es arbitrary: a)
     (auto simp: add_user_message_def add_ai_message_def block_text_def)

text \<open>
  Claim C8, as amended. For a conversation of user and assistant entries whose messages
  are not empty, have no white space at either end and have no line after the first
  that starts with \<open>You: \<close> or \<open>Sugar-AI: \<close>: when the transcript has been rendered from
  these entries, \<open>write_file\<close> stores exactly these entries, in order, and \<open>read_file\<close>
  of what was stored restores them as the conversation history and renders the same
  transcript.
\<close>

theorem session_round_trip:
  assumes "\<forall>e \<in> set es. well_formed_entry e"
  shows "conversation_history_json (write_file (restore es (a\<lparr>chat_buffer := []\<rparr>))) = es
    \<and> self_conversation_history (read_file (write_file (restore es (a\<lparr>chat_buffer := []\<rparr>))) b) = es
    \<and> chat_buffer (read_file (write_file (restore es (a\<lparr>chat_buffer := []\<rparr>))) b) =
        chat_buffer (restore es (a\<lparr>chat_buffer := []\<rparr>))"
proof -
  define r where "r = restore es (a\<lparr>chat_buffer := []\<rparr>)"
  have ty: "\<forall>e \<in> set es. entry_type e = ''user'' \<or> entry_type e = ''ai''"
    using assms by (simp add: well_formed_entry_def)
  have buf: "chat_buffer r = concat (map block_text es)"
    unfolding r_def by (simp add: restore_buffer [OF ty])
  have w: "conversation_history_json (write_file r) = es"
    by (simp add: write_file_def buf parse_conversation_blocks [OF assms])
  have ty': "\<forall>e \<in> set (conversation_history_json (write_file r)).
      entry_type e = ''user'' \<or> entry_type e = ''ai''"
    using ty w by simp
  have rd: "self_conversation_history (read_file (write_file r) b) = es
      \<and> chat_buffer (read_file (write_file r) b) = concat (map block_text es)"
    unfolding read_file_def restore_buffer [OF ty'] by (simp add: w)
  show ?thesis
    using w rd buf unfolding r_def by simp
qed

theorem session_round_trip_witness:
  "well_formed_entry \<lparr>entry_type = ''user'', message = ''What is a loop?''\<rparr>
   \<and> well_formed_entry \<lparr>entry_type = ''ai'', message = ''A loop\<newline>repeats code.''\<rparr>
   \<and> self_conversation_history
        (read_file (write_file (restore [\<lparr>entry_type = ''user'', message = ''What is a loop?''\<rparr>,
                                          \<lparr>entry_type = ''ai'', message = ''A loop\<newline>repeats code.''\<rparr>]
                                  ((init_activity ''key'')\<lparr>chat_buffer := []\<rparr>)))
           (init_activity ''key'')) =
       [\<lparr>entry_type = ''user'', message = ''What is a loop?''\<rparr>,
        \<lparr>entry_type = ''ai'', message = ''A loop\<newline>repeats code.''\<rparr>]"
proof -
  have wf: "\<forall>e \<in> set [\<lparr>entry_type = ''user'', message = ''What is a loop?''\<rparr>,
                 \<lparr>entry_type = ''ai'', message = ''A loop\<newline>repeats code.''\<rparr>]. well_formed_entry e"
    by (simp add: well_formed_entry_def well_formed_message_def is_space_def plain_line_def
          startswith_def)
  show ?thesis
    using wf session_round_trip [OF wf, of "init_activity ''key''" "init_activity ''key''"]
    by simp
qed

text \<open>
  Claim C8 as stated fails. An answer that ends with a newline comes back without it,
  and an answer with a line that starts with \<open>You: \<close> comes back as two entries.
\<close>

theorem session_round_trip_changes_entries:
  "self_conversation_history
     (read_file (write_file (restore [\<lparr>entry_type = ''user'', message = ''What is a loop?''\<rparr>,
                                       \<lparr>entry_type = ''ai'', message = ''A loop repeats code.\<newline>''\<rparr>]
                               ((init_activity ''key'')\<lparr>chat_buffer := []\<rparr>)))
        (init_activity ''key'')) =
     [\<lparr>entry_type = ''user'', message = ''What is a loop?''\<rparr>,
      \<lparr>entry_type = ''ai'', message = ''A loop repeats code.''\<rparr>]
   \<and> self_conversation_history
     (read_file (write_file (restore [\<lparr>entry_type = ''user'', message = ''Show me a chat''\<rparr>,
                                       \<lparr>entry_type = ''ai'', message = ''Like this:\<newline>You: hello''\<rparr>]
                               ((init_activity ''key'')\<lparr>chat_buffer := []\<rparr>)))
        (init_activity ''key'')) =
     [\<lparr>entry_type = ''user'', message = ''Show me a chat''\<rparr>,
      \<lparr>entry_type = ''ai'', message = ''Like this:''\<rparr>,
      \<lparr>entry_type = ''user'', message = ''hello''\<rparr>]"
  by code_simp


lemma trace_sensitive:
  "filter is_sensitive (notifications (make_api_request env q)) = [SetInputSensitive True]"
  by (simp add: trace_unfold notifications_append attempt_body_sensitive)

lemma trace_last:
  "last (make_api_request env q) = IdleAdd (SetInputSensitive True)"
  by (simp add: trace_unfold)

subsection \<open>One orchestration at a time\<close>

lemma thread_ok_trace: "thread_ok (make_api_request env q)"
  using trace_last [of env q] trace_sensitive [of env q]
  by (auto simp: thread_ok_def)

lemma requesting_add [simp]:
  "self_is_requesting (add_system_message m a) = self_is_requesting a"
  "self_is_requesting (add_user_message m a) = self_is_requesting a"
  "self_is_requesting (add_ai_message m a) = self_is_requesting a"
  "self_is_requesting (add_error_message m a) = self_is_requesting a"
  "self_is_requesting (show_error_alert m a) = self_is_requesting a"
  "self_is_requesting (on_clear_clicked a) = self_is_requesting a"
  by (simp_all add: add_system_message_def add_user_message_def add_ai_message_def
        add_error_message_def show_error_alert_def on_clear_clicked_def)

lemma requesting_restore [simp]: "self_is_requesting (restore es a) = self_is_requesting a"
  by (induction es arbitrary: a) simp_all

lemma requesting_read_file [simp]: "self_is_requesting (read_file data a) = self_is_requesting a"
  by (simp add: read_file_def)

lemma requesting_set [simp]: "self_is_requesting (set_input_sensitive b a) = (\<not> b)"
  by (simp add: set_input_sensitive_def)

lemma on_ask_clicked_cases:
  "on_ask_clicked a = (a', r) \<Longrightarrow>
     (r = None \<and> self_is_requesting a' = self_is_requesting a)
     \<or> (r \<noteq> None \<and> \<not> self_is_requesting a \<and> self_is_requesting a')"
  by (auto simp: on_ask_clicked_def Let_def split: if_splits)

lemma notifications_mem: "IdleAdd c \<in> set es \<Longrightarrow> c \<in> set (notifications es)"
  by (induction es rule: notifications.induct) auto

text \<open>The next effect of a running thread.\<close>

lemma thread_ok_last:
  assumes "thread_ok (IdleAdd c # rest)" "is_sensitive c"
  shows "c = SetInputSensitive True \<and> rest = []"
proof -
  from assms have f: "c = SetInputSensitive True" "filter is_sensitive (notifications rest) = []"
    and l: "last (IdleAdd c # rest) = IdleAdd (SetInputSensitive True)"
    by (auto simp: thread_ok_def)
  have "rest = []"
  proof (rule ccontr)
    assume "rest \<noteq> []"
    with l have "IdleAdd (SetInputSensitive True) \<in> set rest"
      by (metis last.simps last_in_set)
    then have "SetInputSensitive True \<in> set (notifications rest)"
      by (rule notifications_mem)
    then have "SetInputSensitive True \<in> set (filter is_sensitive (notifications rest))"
      by simp
    with f(2) show False by simp
  qed
  with f(1) show ?thesis by simp
qed

lemma thread_ok_rest:
  assumes "thread_ok (e # rest)" "\<forall>c. e = IdleAdd c \<longrightarrow> \<not> is_sensitive c"
  shows "thread_ok rest"
proof -
  from assms(1) have l: "last (e # rest) = IdleAdd (SetInputSensitive True)"
    and f: "filter is_sensitive (notifications (e # rest)) = [SetInputSensitive True]"
    by (auto simp: thread_ok_def)
  have ne: "rest \<noteq> []"
  proof
    assume "rest = []"
    with l have "e = IdleAdd (SetInputSensitive True)" by simp
    with assms(2) show False by simp
  qed
  have "filter is_sensitive (notifications rest) = [SetInputSensitive True]"
    using f assms(2) by (cases e) auto
  with ne l show ?thesis by (simp add: thread_ok_def)
qed

lemma list_all_remove: "list_all P xs \<Longrightarrow> list_all P (take i xs @ drop (Suc i) xs)"
  by (auto simp: list_all_iff dest: in_set_takeD in_set_dropD)

lemma list_all_update: "list_all P xs \<Longrightarrow> P y \<Longrightarrow> list_all P (xs[i := y])"
  by (auto simp: list_all_iff dest: set_update_subset_insert [THEN subsetD])

lemma length_remove: "i < length xs \<Longrightarrow> length (take i xs @ drop (Suc i) xs) = length xs - 1"
  by auto

lemma system_ok_thread_step:
  assumes "system_ok s"
  shows "system_ok (thread_step i s)"
proof (cases "i < length (threads s)")
  case False
  with assms show ?thesis by (simp add: thread_step_def)
next
  case True
  from assms have all: "list_all thread_ok (threads s)"
    and q: "list_all (\<lambda>c. c = SetInputSensitive True) (filter is_sensitive (idle_queue s))"
    and n: "length (threads s) + length (filter is_sensitive (idle_queue s)) =
          (if self_is_requesting (act s) then 1 else 0)"
    by (simp_all add: system_ok_def)
  from all True have ok: "thread_ok (threads s ! i)"
    by (simp add: list_all_length)
  then obtain e rest where t: "threads s ! i = e # rest"
    by (cases "threads s ! i") (auto simp: thread_ok_def)
  show ?thesis
  proof (cases "\<exists>c. e = IdleAdd c \<and> is_sensitive c")
    case True
    then obtain c where c: "e = IdleAdd c" "is_sensitive c" by blast
    with ok t have last: "c = SetInputSensitive True" "rest = []"
      using thread_ok_last [of c rest] by auto
    have s': "thread_step i s =
        s\<lparr>threads := take i (threads s) @ drop (Suc i) (threads s),
          idle_queue := idle_queue s @ [SetInputSensitive True]\<rparr>"
      using \<open>i < length (threads s)\<close> t c(1) last by (simp add: thread_step_def)
    show ?thesis
      unfolding s' system_ok_def
      using list_all_remove [OF all, of i] q n length_remove [OF \<open>i < length (threads s)\<close>]
        \<open>i < length (threads s)\<close>
      by (auto split: if_splits)
  next
    case False
    then have ns: "\<forall>c. e = IdleAdd c \<longrightarrow> \<not> is_sensitive c" by blast
    from ok t have r: "thread_ok rest"
      using thread_ok_rest [OF _ ns, of rest] by simp
    then have ne: "rest \<noteq> []" by (simp add: thread_ok_def)
    have s': "thread_step i s =
        s\<lparr>threads := (threads s)[i := rest],
          idle_queue := (case e of IdleAdd c \<Rightarrow> idle_queue s @ [c] | _ \<Rightarrow> idle_queue s)\<rparr>"
      using \<open>i < length (threads s)\<close> t ne by (simp add: thread_step_def)
    have fq: "filter is_sensitive (case e of IdleAdd c \<Rightarrow> idle_queue s @ [c] | _ \<Rightarrow> idle_queue s) =
        filter is_sensitive (idle_queue s)"
      using ns by (cases e) auto
    show ?thesis
      unfolding s' system_ok_def
      using list_all_update [OF all r, of i] q n by (simp add: fq)
  qed
qed

lemma system_ok_run_idle:
  assumes "system_ok s"
  shows "system_ok (do_step RunIdle s)"
proof (cases "idle_queue s")
  case Nil
  with assms show ?thesis by simp
next
  case (Cons c cs)
  from assms have all: "list_all thread_ok (threads s)"
    and q: "list_all (\<lambda>c. c = SetInputSensitive True) (filter is_sensitive (idle_queue s))"
    and n: "length (threads s) + length (filter is_sensitive (idle_queue s)) =
          (if self_is_requesting (act s) then 1 else 0)"
    by (simp_all add: system_ok_def)
  show ?thesis
  proof (cases "is_sensitive c")
    case True
    with q Cons have c: "c = SetInputSensitive True" by simp
    from n Cons True have "threads s = []" "filter is_sensitive cs = []"
      by (auto split: if_splits)
    then show ?thesis
      using Cons c by (simp add: system_ok_def)
  next
    case False
    then have "self_is_requesting (run_callback c (act s)) = self_is_requesting (act s)"
      by (cases c) simp_all
    then show ?thesis
      using Cons False all q n by (simp add: system_ok_def)
  qed
qed

lemma system_ok_ask:
  assumes "system_ok s"
  shows "system_ok (do_step (AskClicked env) s)"
proof -
  obtain a r where o: "on_ask_clicked (act s) = (a, r)"
    by (cases "on_ask_clicked (act s)") auto
  from assms have all: "list_all thread_ok (threads s)"
    and q: "list_all (\<lambda>c. c = SetInputSensitive True) (filter is_sensitive (idle_queue s))"
    and n: "length (threads s) + length (filter is_sensitive (idle_queue s)) =
          (if self_is_requesting (act s) then 1 else 0)"
    by (simp_all add: system_ok_def)
  from on_ask_clicked_cases [OF o] show ?thesis
  proof
    assume "r = None \<and> self_is_requesting a = self_is_requesting (act s)"
    then show ?thesis
      using o all q n by (simp add: system_ok_def)
  next
    assume h: "r \<noteq> None \<and> \<not> self_is_requesting (act s) \<and> self_is_requesting a"
    then obtain question where r: "r = Some question" by auto
    from h n have "threads s = []" "filter is_sensitive (idle_queue s) = []"
      by auto
    then show ?thesis
      using o r h by (simp add: system_ok_def thread_ok_trace)
  qed
qed

lemma system_ok_do_step: "system_ok s \<Longrightarrow> system_ok (do_step st s)"
proof (cases st)
  case (AskClicked env)
  assume "system_ok s"
  with AskClicked show ?thesis by (simp only: system_ok_ask)
next
  case RunIdle
  assume "system_ok s"
  with RunIdle show ?thesis by (simp only: system_ok_run_idle)
next
  case (ThreadStep i)
  assume "system_ok s"
  with ThreadStep show ?thesis by (simp add: system_ok_thread_step)
qed (simp_all add: system_ok_def)

lemma system_ok_run_steps: "system_ok s \<Longrightarrow> system_ok (run_steps steps s)"
  unfolding run_steps_def
  by (induction steps arbitrary: s) (simp_all add: system_ok_do_step)

lemma system_ok_init: "system_ok (init_system key)"
  by (simp add: system_ok_def init_system_def init_activity_def)

lemma one_thread: "system_ok s \<Longrightarrow> length (threads s) \<le> 1"
  by (auto simp: system_ok_def split: if_splits)

text \<open>
  Claim C6. \<open>_on_ask_clicked\<close> checks, in the handler itself, that the question is not
  empty after trimming, that a key is configured and that no request is in flight; when
  one of the checks fails it starts no thread and leaves \<open>_is_requesting\<close> and the
  transcript as they were. When all pass it sets \<open>_is_requesting\<close> before it starts
  the thread, with the trimmed question as argument. Hence, whatever the user, the main
  loop and the background threads do from the start of the activity on, at most one
  orchestration is in flight.
\<close>

theorem one_orchestration_in_flight:
  "(py_strip (question_entry_text a) = [] \<or> self_api_key a = [] \<or> self_is_requesting a \<longrightarrow>
      snd (on_ask_clicked a) = None
      \<and> self_is_requesting (fst (on_ask_clicked a)) = self_is_requesting a
      \<and> chat_buffer (fst (on_ask_clicked a)) = chat_buffer a)
   \<and> (py_strip (question_entry_text a) \<noteq> [] \<and> self_api_key a \<noteq> [] \<and> \<not> self_is_requesting a \<longrightarrow>
      snd (on_ask_clicked a) = Some (py_strip (question_entry_text a))
      \<and> self_is_requesting (fst (on_ask_clicked a)))
   \<and> (py_strip (question_entry_text (act s)) = [] \<or> self_api_key (act s) = []
        \<or> self_is_requesting (act s) \<longrightarrow>
      threads (do_step (AskClicked env) s) = threads s)
   \<and> length (threads (run_steps steps (init_system key))) \<le> 1"
proof (intro conjI impI)
  assume "py_strip (question_entry_text a) = [] \<or> self_api_key a = [] \<or> self_is_requesting a"
  then show "snd (on_ask_clicked a) = None"
    and "self_is_requesting (fst (on_ask_clicked a)) = self_is_requesting a"
    and "chat_buffer (fst (on_ask_clicked a)) = chat_buffer a"
    by (auto simp: on_ask_clicked_def Let_def show_error_alert_def)
next
  assume "py_strip (question_entry_text a) \<noteq> [] \<and> self_api_key a \<noteq> [] \<and> \<not> self_is_requesting a"
  then show "snd (on_ask_clicked a) = Some (py_strip (question_entry_text a))"
    and "self_is_requesting (fst (on_ask_clicked a))"
    by (simp_all add: on_ask_clicked_def Let_def)
next
  assume "py_strip (question_entry_text (act s)) = [] \<or> self_api_key (act s) = []
        \<or> self_is_requesting (act s)"
  then show "threads (do_step (AskClicked env) s) = threads s"
    by (auto simp: on_ask_clicked_def Let_def)
next
  show "length (threads (run_steps steps (init_system key))) \<le> 1"
    by (intro one_thread system_ok_run_steps system_ok_init)
qed

theorem one_orchestration_in_flight_witness:
  "py_strip (question_entry_text (init_activity ''key'')) = []
   \<and> snd (on_ask_clicked (init_activity ''key'')) = None
   \<and> py_strip (question_entry_text ((init_activity ''key'')\<lparr>question_entry_text := '' What is a loop? ''\<rparr>)) \<noteq> []
   \<and> snd (on_ask_clicked ((init_activity ''key'')\<lparr>question_entry_text := '' What is a loop? ''\<rparr>)) =
       Some ''What is a loop?''
   \<and> self_is_requesting (fst (on_ask_clicked ((init_activity ''key'')\<lparr>question_entry_text := '' What is a loop? ''\<rparr>)))
   \<and> length (threads (run_steps
        [SetQuestion ''What is a loop?'', AskClicked scenario_C, SetQuestion ''Again?'', AskClicked scenario_A]
        (init_system ''key''))) \<le> 1"
proof -
  have p: "py_strip '' What is a loop? '' = ''What is a loop?''"
    by code_simp
  have p0: "py_strip [] = []"
    by (simp add: py_strip_def)
  show ?thesis
    using one_orchestration_in_flight [of "init_activity ''key''" "init_system ''key''" scenario_A
        "[SetQuestion ''What is a loop?'', AskClicked scenario_C, SetQuestion ''Again?'', AskClicked scenario_A]"
        "''key''"]
      one_orchestration_in_flight [of "(init_activity ''key'')\<lparr>question_entry_text := '' What is a loop? ''\<rparr>"
        "init_system ''key''" scenario_A "[]" "''key''"]
    by (simp add: init_activity_def p0 p)
qed


end
